theory Spec2Isabelle
  imports Main "HOL-Library.Word"
begin

section \<open>The LemmingsFHE contract: data model\<close>

text \<open>
  The contract is written in Solidity 0.8: \<open>uint256\<close> arithmetic is checked (an overflow
  reverts with a panic), a \<open>mapping\<close> is a total function whose unwritten keys hold the
  zero value of the value type, and a revert discards every write of the call.
\<close>

type_synonym address = "160 word"
type_synonym uint256 = "256 word"
type_synonym bytes32 = "256 word"
type_synonym bytes = "8 word list"

text \<open>\<open>euint32\<close> is an opaque ciphertext handle, a user-defined value type over \<open>bytes32\<close>.\<close>

type_synonym euint32 = bytes32

definition toBytes32 :: "euint32 \<Rightarrow> bytes32" where
  "toBytes32 h = h"

record DecryptionContext =
  batchId :: uint256
  stateHash :: bytes32
  processed :: bool

text \<open>
  The fields \<open>x\<close> and \<open>y\<close> of the struct \<open>Lemming\<close> are called \<open>xCoord\<close> and \<open>yCoord\<close>
  here, to keep \<open>x\<close> and \<open>y\<close> free as variable names.
\<close>

record Lemming =
  ability :: euint32
  xCoord :: euint32
  yCoord :: euint32

record contract =
  owner :: address
  isProvider :: "address \<Rightarrow> bool"
  paused :: bool
  cooldownSeconds :: uint256
  lastSubmissionTime :: "address \<Rightarrow> uint256"
  lastDecryptionRequestTime :: "address \<Rightarrow> uint256"
  currentBatchId :: uint256
  isBatchOpen :: "uint256 \<Rightarrow> bool"
  decryptionContexts :: "uint256 \<Rightarrow> DecryptionContext"
  lemmings :: "uint256 \<Rightarrow> uint256 \<Rightarrow> Lemming"
  lemmingCountInBatch :: "uint256 \<Rightarrow> uint256"

datatype event =
    OwnershipTransferred address address
  | ProviderAdded address
  | ProviderRemoved address
  | Paused address
  | Unpaused address
  | CooldownSecondsSet uint256 uint256
  | BatchOpened uint256
  | BatchClosed uint256
  | LemmingSubmitted address uint256 uint256
  | DecryptionRequested uint256 uint256 bytes32
  | DecryptionCompleted uint256 uint256 "uint256 list" "uint256 list" "uint256 list"

text \<open>
  The nine custom errors the contract declares, the arithmetic panic of checked
  \<open>uint256\<close> operations, and the reverts of the three library calls of \<open>myCallback\<close>
  (\<open>FHE.checkSignatures\<close>, \<open>slice\<close>, \<open>abi.decode\<close>).
\<close>

datatype error =
    NotOwner
  | NotProvider
  | PausedState
  | CooldownActive
  | BatchClosedOrInvalid
  | ReplayAttempt
  | StateMismatch
  | InvalidBatchId
  | InvalidLemmingId
  | Panic
  | CheckSignaturesReverted
  | SliceReverted
  | AbiDecodeReverted

text \<open>
  What a call sees of its transaction: \<open>msg.sender\<close>, \<open>block.timestamp\<close>, and the request
  id that the oracle's \<open>FHE.requestDecryption\<close> returns if the call reaches it (the
  contract does not choose that id).
\<close>

record env =
  msg_sender :: address
  block_timestamp :: uint256
  oracle_requestId :: uint256

text \<open>
  The primitives the contract imports and the source does not define, taken as
  parameters: \<open>address(this)\<close>; \<open>keccak256(abi.encode(cts, address(this)))\<close> as a function
  of the ciphertext list and the address; \<open>FHE.checkSignatures\<close>, which reverts unless the
  proof is accepted (\<open>True\<close> here); and \<open>slice\<close> on \<open>bytes\<close>, which returns a sub-array
  or reverts (\<open>None\<close>).
\<close>

record externals =
  this_address :: address
  keccak256_encode :: "bytes32 list \<Rightarrow> address \<Rightarrow> bytes32"
  checkSignatures :: "uint256 \<Rightarrow> bytes \<Rightarrow> bytes \<Rightarrow> bool"
  slice :: "bytes \<Rightarrow> uint256 \<Rightarrow> uint256 \<Rightarrow> bytes option"

text \<open>
  A call either completes, with the new storage and the events it emitted, or reverts.
  A revert carries the error and the storage as the call had written it when the revert
  was raised; the transaction (\<open>transact\<close> below) then discards those writes.
\<close>

type_synonym result = "(error \<times> contract) + (contract \<times> event list)"

section \<open>Checked arithmetic and decoding\<close>

definition checked_add :: "uint256 \<Rightarrow> uint256 \<Rightarrow> uint256 option" where
  "checked_add a b = (if unat a + unat b < 2 ^ 256 then Some (a + b) else None)"

definition checked_mul :: "uint256 \<Rightarrow> uint256 \<Rightarrow> uint256 option" where
  "checked_mul a b = (if unat a * unat b < 2 ^ 256 then Some (a * b) else None)"

text \<open>\<open>abi.decode(b, (uint256))\<close>: reverts on fewer than 32 bytes, reads the first 32 big-endian.\<close>

definition be_word :: "bytes \<Rightarrow> uint256" where
  "be_word bs = foldl (\<lambda>acc b. acc * 256 + ucast b) 0 bs"

definition abi_decode_uint256 :: "bytes \<Rightarrow> uint256 option" where
  "abi_decode_uint256 bs = (if length bs < 32 then None else Some (be_word (take 32 bs)))"

section \<open>Modifiers\<close>

definition onlyOwner :: "env \<Rightarrow> contract \<Rightarrow> error option" where
  "onlyOwner e s = (if msg_sender e \<noteq> owner s then Some NotOwner else None)"

definition onlyProvider :: "env \<Rightarrow> contract \<Rightarrow> error option" where
  "onlyProvider e s = (if \<not> isProvider s (msg_sender e) then Some NotProvider else None)"

definition whenNotPaused :: "contract \<Rightarrow> error option" where
  "whenNotPaused s = (if paused s then Some PausedState else None)"

text \<open>
  \<open>respectCooldown(user, cooldownMapping)\<close>: the sum \<open>cooldownMapping[user] + cooldownSeconds\<close>
  is checked, so it panics on overflow before the comparison is made.
\<close>

definition respectCooldown :: "env \<Rightarrow> contract \<Rightarrow> address \<Rightarrow> (address \<Rightarrow> uint256) \<Rightarrow> error option" where
  "respectCooldown e s user cooldownMapping =
     (case checked_add (cooldownMapping user) (cooldownSeconds s) of
        None \<Rightarrow> Some Panic
      | Some deadline \<Rightarrow>
          if block_timestamp e < deadline then Some CooldownActive else None)"

section \<open>Constructor and administration\<close>

text \<open>
  The constructor's call of \<open>_initIfNeeded\<close> initialises the FHE library and writes none
  of the contract's own state variables.
\<close>

definition constructor :: "env \<Rightarrow> contract \<times> event list" where
  "constructor e =
     (\<lparr>owner = msg_sender e,
       isProvider = (\<lambda>_. False),
       paused = False,
       cooldownSeconds = 0,
       lastSubmissionTime = (\<lambda>_. 0),
       lastDecryptionRequestTime = (\<lambda>_. 0),
       currentBatchId = 0,
       isBatchOpen = (\<lambda>_. False),
       decryptionContexts = (\<lambda>_. \<lparr>batchId = 0, stateHash = 0, processed = False\<rparr>),
       lemmings = (\<lambda>_ _. \<lparr>ability = 0, xCoord = 0, yCoord = 0\<rparr>),
       lemmingCountInBatch = (\<lambda>_. 0)\<rparr>,
      [OwnershipTransferred 0 (msg_sender e)])"

definition transferOwnership :: "env \<Rightarrow> address \<Rightarrow> contract \<Rightarrow> result" where
  "transferOwnership e newOwner s =
     (case onlyOwner e s of Some err \<Rightarrow> Inl (err, s) | None \<Rightarrow>
        let oldOwner = owner s;
            s1 = s\<lparr>owner := newOwner\<rparr>
        in Inr (s1, [OwnershipTransferred oldOwner newOwner]))"

definition addProvider :: "env \<Rightarrow> address \<Rightarrow> contract \<Rightarrow> result" where
  "addProvider e provider s =
     (case onlyOwner e s of Some err \<Rightarrow> Inl (err, s) | None \<Rightarrow>
        Inr (s\<lparr>isProvider := (isProvider s)(provider := True)\<rparr>, [ProviderAdded provider]))"

definition removeProvider :: "env \<Rightarrow> address \<Rightarrow> contract \<Rightarrow> result" where
  "removeProvider e provider s =
     (case onlyOwner e s of Some err \<Rightarrow> Inl (err, s) | None \<Rightarrow>
        Inr (s\<lparr>isProvider := (isProvider s)(provider := False)\<rparr>, [ProviderRemoved provider]))"

definition setPaused :: "env \<Rightarrow> bool \<Rightarrow> contract \<Rightarrow> result" where
  "setPaused e p s =
     (case onlyOwner e s of Some err \<Rightarrow> Inl (err, s) | None \<Rightarrow>
        if p then Inr (s\<lparr>paused := True\<rparr>, [Paused (msg_sender e)])
        else Inr (s\<lparr>paused := False\<rparr>, [Unpaused (msg_sender e)]))"

definition setCooldownSeconds :: "env \<Rightarrow> uint256 \<Rightarrow> contract \<Rightarrow> result" where
  "setCooldownSeconds e newCooldownSeconds s =
     (case onlyOwner e s of Some err \<Rightarrow> Inl (err, s) | None \<Rightarrow>
        let oldCooldown = cooldownSeconds s;
            s1 = s\<lparr>cooldownSeconds := newCooldownSeconds\<rparr>
        in Inr (s1, [CooldownSecondsSet oldCooldown newCooldownSeconds]))"

section \<open>Batches and submissions\<close>

definition openBatch :: "env \<Rightarrow> contract \<Rightarrow> result" where
  "openBatch e s =
     (case onlyOwner e s of Some err \<Rightarrow> Inl (err, s) | None \<Rightarrow>
     (case whenNotPaused s of Some err \<Rightarrow> Inl (err, s) | None \<Rightarrow>
     (case checked_add (currentBatchId s) 1 of None \<Rightarrow> Inl (Panic, s) | Some n \<Rightarrow>
        let s1 = s\<lparr>currentBatchId := n\<rparr>;
            s2 = s1\<lparr>isBatchOpen := (isBatchOpen s1)(currentBatchId s1 := True)\<rparr>
        in Inr (s2, [BatchOpened (currentBatchId s2)]))))"

definition closeBatch :: "env \<Rightarrow> uint256 \<Rightarrow> contract \<Rightarrow> result" where
  "closeBatch e b s =
     (case onlyOwner e s of Some err \<Rightarrow> Inl (err, s) | None \<Rightarrow>
      if \<not> isBatchOpen s b then Inl (BatchClosedOrInvalid, s)
      else Inr (s\<lparr>isBatchOpen := (isBatchOpen s)(b := False)\<rparr>, [BatchClosed b]))"

definition submitLemming :: "env \<Rightarrow> uint256 \<Rightarrow> euint32 \<Rightarrow> euint32 \<Rightarrow> euint32 \<Rightarrow> contract \<Rightarrow> result" where
  "submitLemming e b encryptedAbility encryptedX encryptedY s =
     (case onlyProvider e s of Some err \<Rightarrow> Inl (err, s) | None \<Rightarrow>
     (case whenNotPaused s of Some err \<Rightarrow> Inl (err, s) | None \<Rightarrow>
     (case respectCooldown e s (msg_sender e) (lastSubmissionTime s) of
        Some err \<Rightarrow> Inl (err, s) | None \<Rightarrow>
      if \<not> isBatchOpen s b then Inl (BatchClosedOrInvalid, s) else
     (case checked_add (lemmingCountInBatch s b) 1 of None \<Rightarrow> Inl (Panic, s) | Some lemmingId \<Rightarrow>
        let s1 = s\<lparr>lemmingCountInBatch := (lemmingCountInBatch s)(b := lemmingId)\<rparr>;
            s2 = s1\<lparr>lemmings := (lemmings s1)(b := (lemmings s1 b)(lemmingId :=
                    \<lparr>ability = encryptedAbility, xCoord = encryptedX, yCoord = encryptedY\<rparr>))\<rparr>;
            s3 = s2\<lparr>lastSubmissionTime := (lastSubmissionTime s2)(msg_sender e := block_timestamp e)\<rparr>
        in Inr (s3, [LemmingSubmitted (msg_sender e) b lemmingId])))))"

section \<open>Decryption requests and the oracle callback\<close>

text \<open>
  The loop \<open>for (uint256 i = 1; i <= numLemmings; i++)\<close> that fills the ciphertext array
  with the handles of records \<open>i\<close>, three per record, from left to right. The list \<open>cts\<close>
  is the part of the array written so far (\<open>ctsIdx\<close> is its length, and stays inside the
  array of \<open>numLemmings * 3\<close> cells). The increment \<open>i++\<close> is checked: \<open>None\<close> is its panic.
\<close>

function collectCts :: "contract \<Rightarrow> uint256 \<Rightarrow> uint256 \<Rightarrow> uint256 \<Rightarrow> bytes32 list \<Rightarrow> bytes32 list option" where
  "collectCts s b i numLemmings cts =
     (if i \<le> numLemmings then
        (let lemming = lemmings s b i;
             cts1 = cts @ [toBytes32 (ability lemming), toBytes32 (xCoord lemming), toBytes32 (yCoord lemming)]
         in if unat i + 1 < 2 ^ 256 then collectCts s b (i + 1) numLemmings cts1 else None)
      else Some cts)"
  by pat_completeness auto
termination
proof (relation "measure (\<lambda>(s, b, i, numLemmings, cts). Suc (unat numLemmings) - unat i)")
  show "wf (measure (\<lambda>(s, b, i, numLemmings, cts). Suc (unat numLemmings) - unat i))"
    by simp
next
  fix s :: contract and b i numLemmings :: uint256 and cts cts1 :: "bytes32 list"
  assume le: "i \<le> numLemmings" and nov: "unat i + 1 < 2 ^ 256"
  have "unat (i + 1) = unat i + 1"
    using nov by (simp add: unat_word_ariths)
  moreover have "unat i \<le> unat numLemmings"
    using le by (simp add: word_le_nat_alt)
  ultimately show "((s, b, i + 1, numLemmings, cts1), (s, b, i, numLemmings, cts))
         \<in> measure (\<lambda>(s, b, i, numLemmings, cts). Suc (unat numLemmings) - unat i)"
    by simp
qed

text \<open>\<open>_hashCiphertexts\<close> of the source (a name cannot begin with an underscore here).\<close>

definition hashCiphertexts :: "externals \<Rightarrow> bytes32 list \<Rightarrow> bytes32" where
  "hashCiphertexts ext cts = keccak256_encode ext cts (this_address ext)"

definition requestBatchDecryption :: "externals \<Rightarrow> env \<Rightarrow> uint256 \<Rightarrow> contract \<Rightarrow> result" where
  "requestBatchDecryption ext e b s =
     (case onlyOwner e s of Some err \<Rightarrow> Inl (err, s) | None \<Rightarrow>
     (case whenNotPaused s of Some err \<Rightarrow> Inl (err, s) | None \<Rightarrow>
     (case respectCooldown e s (msg_sender e) (lastDecryptionRequestTime s) of
        Some err \<Rightarrow> Inl (err, s) | None \<Rightarrow>
      if lemmingCountInBatch s b = 0 then Inl (InvalidBatchId, s) else
      let numLemmings = lemmingCountInBatch s b in
     (case checked_mul numLemmings 3 of None \<Rightarrow> Inl (Panic, s) | Some ctsLength \<Rightarrow>
     (case collectCts s b 1 numLemmings [] of None \<Rightarrow> Inl (Panic, s) | Some cts \<Rightarrow>
        let stateHash' = hashCiphertexts ext cts;
            requestId = oracle_requestId e;
            s1 = s\<lparr>decryptionContexts := (decryptionContexts s)(requestId :=
                    \<lparr>batchId = b, stateHash = stateHash', processed = False\<rparr>)\<rparr>;
            s2 = s1\<lparr>lastDecryptionRequestTime :=
                    (lastDecryptionRequestTime s1)(msg_sender e := block_timestamp e)\<rparr>
        in Inr (s2, [DecryptionRequested requestId b stateHash']))))))"

text \<open>\<open>abi.decode(cleartexts.slice(cleartextIdx, 32), (uint256))\<close>\<close>

definition decodeAt :: "externals \<Rightarrow> bytes \<Rightarrow> uint256 \<Rightarrow> error + uint256" where
  "decodeAt ext cleartexts cleartextIdx =
     (case slice ext cleartexts cleartextIdx 32 of None \<Rightarrow> Inl SliceReverted | Some bs \<Rightarrow>
     (case abi_decode_uint256 bs of None \<Rightarrow> Inl AbiDecodeReverted | Some v \<Rightarrow> Inr v))"

text \<open>
  One pass of the body of the decoding loop: three reads, each followed by the checked
  \<open>cleartextIdx += 32\<close>. It returns the triple and the advanced index.
\<close>

definition decodeTriple :: "externals \<Rightarrow> bytes \<Rightarrow> uint256 \<Rightarrow> error + ((uint256 \<times> uint256 \<times> uint256) \<times> uint256)" where
  "decodeTriple ext cleartexts idx0 =
     (case decodeAt ext cleartexts idx0 of Inl err \<Rightarrow> Inl err | Inr a \<Rightarrow>
     (case checked_add idx0 32 of None \<Rightarrow> Inl Panic | Some idx1 \<Rightarrow>
     (case decodeAt ext cleartexts idx1 of Inl err \<Rightarrow> Inl err | Inr vx \<Rightarrow>
     (case checked_add idx1 32 of None \<Rightarrow> Inl Panic | Some idx2 \<Rightarrow>
     (case decodeAt ext cleartexts idx2 of Inl err \<Rightarrow> Inl err | Inr vy \<Rightarrow>
     (case checked_add idx2 32 of None \<Rightarrow> Inl Panic | Some idx3 \<Rightarrow>
        Inr ((a, vx, vy), idx3)))))))"

text \<open>
  The loop \<open>for (uint256 i = 0; i < numLemmings; i++)\<close> of \<open>myCallback\<close>. The three lists
  are the cells \<open>0..i-1\<close> of the arrays \<open>abilities\<close>, \<open>xs\<close> and \<open>ys\<close>. Under the
  loop condition \<open>i < numLemmings\<close> the checked \<open>i++\<close> cannot overflow.
\<close>

function decodeLoop :: "externals \<Rightarrow> bytes \<Rightarrow> uint256 \<Rightarrow> uint256 \<Rightarrow> uint256
    \<Rightarrow> uint256 list \<Rightarrow> uint256 list \<Rightarrow> uint256 list
    \<Rightarrow> error + (uint256 list \<times> uint256 list \<times> uint256 list)" where
  "decodeLoop ext cleartexts i numLemmings cleartextIdx abilities xs ys =
     (if i < numLemmings then
        (case decodeTriple ext cleartexts cleartextIdx of Inl err \<Rightarrow> Inl err
         | Inr ((a, vx, vy), idx') \<Rightarrow>
             decodeLoop ext cleartexts (i + 1) numLemmings idx'
               (abilities @ [a]) (xs @ [vx]) (ys @ [vy]))
      else Inr (abilities, xs, ys))"
  by pat_completeness auto
termination
proof (relation "measure (\<lambda>(ext, cleartexts, i, numLemmings, rest). unat numLemmings - unat i)")
  show "wf (measure (\<lambda>(ext, cleartexts, i, numLemmings, rest). unat numLemmings - unat i))"
    by simp
next
  fix ext :: externals and cleartexts :: bytes and i numLemmings cleartextIdx idx' :: uint256
    and abilities xs ys abilities' xs' ys' :: "uint256 list"
  assume lt: "i < numLemmings"
  have a: "unat i < unat numLemmings"
    using lt by (simp add: word_less_nat_alt)
  have "unat numLemmings < 2 ^ 256"
    using unsigned_less [of numLemmings] by simp
  then have "unat (i + 1) = unat i + 1"
    using a by (simp add: unat_word_ariths)
  then show "((ext, cleartexts, i + 1, numLemmings, idx', abilities', xs', ys'),
              (ext, cleartexts, i, numLemmings, cleartextIdx, abilities, xs, ys))
         \<in> measure (\<lambda>(ext, cleartexts, i, numLemmings, rest). unat numLemmings - unat i)"
    using a by simp
qed

definition myCallback :: "externals \<Rightarrow> env \<Rightarrow> uint256 \<Rightarrow> bytes \<Rightarrow> bytes \<Rightarrow> contract \<Rightarrow> result" where
  "myCallback ext e requestId cleartexts prf s =
     (let ctx = decryptionContexts s requestId in
      if processed ctx then Inl (ReplayAttempt, s) else
      let numLemmings = lemmingCountInBatch s (batchId ctx) in
      if numLemmings = 0 then Inl (InvalidBatchId, s) else
     (case checked_mul numLemmings 3 of None \<Rightarrow> Inl (Panic, s) | Some ctsLength \<Rightarrow>
     (case collectCts s (batchId ctx) 1 numLemmings [] of None \<Rightarrow> Inl (Panic, s) | Some currentCts \<Rightarrow>
        let currentHash = hashCiphertexts ext currentCts in
        if currentHash \<noteq> stateHash ctx then Inl (StateMismatch, s) else
        if \<not> checkSignatures ext requestId cleartexts prf then Inl (CheckSignaturesReverted, s) else
       (case decodeLoop ext cleartexts 0 numLemmings 0 [] [] [] of Inl err \<Rightarrow> Inl (err, s)
        | Inr (abilities, xs, ys) \<Rightarrow>
            let s1 = s\<lparr>decryptionContexts := (decryptionContexts s)(requestId :=
                        (decryptionContexts s requestId)\<lparr>processed := True\<rparr>)\<rparr>
            in Inr (s1, [DecryptionCompleted requestId (batchId (decryptionContexts s1 requestId))
                           abilities xs ys])))))"

section \<open>Transactions\<close>

datatype call =
    TransferOwnership address
  | AddProvider address
  | RemoveProvider address
  | SetPaused bool
  | SetCooldownSeconds uint256
  | OpenBatch
  | CloseBatch uint256
  | SubmitLemming uint256 euint32 euint32 euint32
  | RequestBatchDecryption uint256
  | MyCallback uint256 bytes bytes

fun execute :: "externals \<Rightarrow> env \<Rightarrow> call \<Rightarrow> contract \<Rightarrow> result" where
  "execute ext e (TransferOwnership newOwner) s = transferOwnership e newOwner s"
| "execute ext e (AddProvider provider) s = addProvider e provider s"
| "execute ext e (RemoveProvider provider) s = removeProvider e provider s"
| "execute ext e (SetPaused p) s = setPaused e p s"
| "execute ext e (SetCooldownSeconds n) s = setCooldownSeconds e n s"
| "execute ext e OpenBatch s = openBatch e s"
| "execute ext e (CloseBatch b) s = closeBatch e b s"
| "execute ext e (SubmitLemming b a vx vy) s = submitLemming e b a vx vy s"
| "execute ext e (RequestBatchDecryption b) s = requestBatchDecryption ext e b s"
| "execute ext e (MyCallback requestId cleartexts prf) s = myCallback ext e requestId cleartexts prf s"

text \<open>
  A transaction commits the storage and the events of a call that completes; a revert
  restores the storage the call started from and emits nothing.
\<close>

definition transact :: "externals \<Rightarrow> env \<times> call \<Rightarrow> contract \<Rightarrow> contract \<times> event list" where
  "transact ext t s =
     (case execute ext (fst t) (snd t) s of Inl (err, s') \<Rightarrow> (s, []) | Inr r \<Rightarrow> r)"

primrec run :: "externals \<Rightarrow> (env \<times> call) list \<Rightarrow> contract \<Rightarrow> contract \<times> event list" where
  "run ext [] s = (s, [])"
| "run ext (t # ts) s =
     (let r1 = transact ext t s; r2 = run ext ts (fst r1) in (fst r2, snd r1 @ snd r2))"

section \<open>Observing the event log\<close>

text \<open>
  The request ids under which decryption requests were recorded, the request ids whose
  callback completed, and the record ids assigned in a batch, each in the order of the
  log.
\<close>

fun request_of :: "event \<Rightarrow> uint256 option" where
  "request_of (DecryptionRequested requestId b h) = Some requestId"
| "request_of _ = None"

fun completion_of :: "event \<Rightarrow> uint256 option" where
  "completion_of (DecryptionCompleted requestId b abilities xs ys) = Some requestId"
| "completion_of _ = None"

fun submission_of :: "uint256 \<Rightarrow> event \<Rightarrow> uint256 option" where
  "submission_of b (LemmingSubmitted provider b' lemmingId) =
     (if b' = b then Some lemmingId else None)"
| "submission_of b _ = None"

definition requested_ids :: "event list \<Rightarrow> uint256 list" where
  "requested_ids evs = List.map_filter request_of evs"

definition completed_ids :: "event list \<Rightarrow> uint256 list" where
  "completed_ids evs = List.map_filter completion_of evs"

definition submitted_ids :: "uint256 \<Rightarrow> event list \<Rightarrow> uint256 list" where
  "submitted_ids b evs = List.map_filter (submission_of b) evs"

section \<open>Sample inputs\<close>

text \<open>
  Concrete values for the parameters, used to run the model on examples: a bounds-checked
  \<open>slice\<close> (it reverts unless \<open>start + len\<close> lies inside the array), a toy stand-in for
  the hash, and a signature check that accepts the one-byte proof \<open>[1]\<close>.
\<close>

definition bytes_slice :: "bytes \<Rightarrow> uint256 \<Rightarrow> uint256 \<Rightarrow> bytes option" where
  "bytes_slice bs start len =
     (if unat start + unat len \<le> length bs then Some (take (unat len) (drop (unat start) bs))
      else None)"

definition sample_externals :: externals where
  "sample_externals =
     \<lparr>this_address = 99,
      keccak256_encode = (\<lambda>cts a. foldl (\<lambda>h c. 31 * h + c + 1) (ucast a) cts),
      checkSignatures = (\<lambda>requestId cleartexts prf. prf = [1]),
      slice = bytes_slice\<rparr>"

definition alice :: address where
  "alice = 10"

definition bob :: address where
  "bob = 11"

definition at_time :: "address \<Rightarrow> uint256 \<Rightarrow> env" where
  "at_time who t = \<lparr>msg_sender = who, block_timestamp = t, oracle_requestId = 7\<rparr>"

definition deployed :: contract where
  "deployed = fst (constructor (at_time alice 0))"

text \<open>\<open>uint256\<close> values as 32 big-endian bytes (for values below 256).\<close>

definition word32 :: "8 word \<Rightarrow> bytes" where
  "word32 v = replicate 31 0 @ [v]"

text \<open>
  A scenario: Alice deploys, authorises Bob, opens batch 1; Bob submits one record; Alice
  requests the decryption of batch 1, and the oracle files the request under id 7.
\<close>

definition scenario :: "(env \<times> call) list" where
  "scenario =
     [(at_time alice 1, AddProvider bob),
      (at_time alice 2, OpenBatch),
      (at_time bob 3, SubmitLemming 1 161 178 195),
      (at_time alice 4, RequestBatchDecryption 1)]"

definition requested :: contract where
  "requested = fst (run sample_externals scenario deployed)"

definition sample_cleartexts :: bytes where
  "sample_cleartexts = word32 2 @ word32 5 @ word32 7"

text \<open>The same deployment with a 60-second cooldown set before anybody has acted.\<close>

definition cooled :: contract where
  "cooled = fst (run sample_externals
     [(at_time alice 1, AddProvider bob),
      (at_time alice 2, OpenBatch),
      (at_time alice 3, SetCooldownSeconds 60)] deployed)"

text \<open>A paused contract with Bob authorised and batch 1 open.\<close>

definition paused_open :: contract where
  "paused_open = fst (run sample_externals
     [(at_time alice 1, AddProvider bob),
      (at_time alice 2, OpenBatch),
      (at_time alice 3, SetPaused True)] deployed)"

text \<open>
  Bob has submitted at time 3; Alice then sets the cooldown to the largest \<open>uint256\<close>,
  \<open>2 ^ 256 - 1\<close>.
\<close>

definition overflowing :: contract where
  "overflowing = fst (run sample_externals
     [(at_time alice 1, AddProvider bob),
      (at_time alice 2, OpenBatch),
      (at_time bob 3, SubmitLemming 1 161 178 195),
      (at_time alice 4, SetCooldownSeconds
         115792089237316195423570985008687907853269984665640564039457584007913129639935)]
     deployed)"

text \<open>The oracle's callback for request 7, with the cleartexts \<open>(2, 5, 7)\<close> and a valid proof.\<close>

definition finalized :: contract where
  "finalized = fst (transact sample_externals
     (at_time bob 5, MyCallback 7 sample_cleartexts [1]) requested)"

text \<open>
  The scenario just before the decryption request, and the scenario with a second record
  submitted to batch 1 while request 7 is outstanding.
\<close>

definition submitted :: contract where
  "submitted = fst (run sample_externals
     [(at_time alice 1, AddProvider bob),
      (at_time alice 2, OpenBatch),
      (at_time bob 3, SubmitLemming 1 161 178 195)] deployed)"

definition drifted :: contract where
  "drifted = fst (transact sample_externals (at_time bob 5, SubmitLemming 1 162 179 196) requested)"

text \<open>
  What happens after the callback: Bob submits a second record, the oracle repeats its
  callback for request 7, and Alice files a new request, which the oracle records under
  id 8.
\<close>

definition later :: "(env \<times> call) list" where
  "later =
     [(at_time bob 6, SubmitLemming 1 162 179 196),
      (at_time bob 7, MyCallback 7 sample_cleartexts [1]),
      (\<lparr>msg_sender = alice, block_timestamp = 8, oracle_requestId = 8\<rparr>,
       RequestBatchDecryption 1)]"






section \<open>Basic facts\<close>

text \<open>
  The recursion equations of the two loop functions are applied by hand: as rewrite
  rules they would unfold without end.
\<close>

declare collectCts.simps [simp del]
declare decodeLoop.simps [simp del]

subsection \<open>The two loop functions\<close>

lemma unat_succ_word: "unat (i::uint256) + 1 < 2 ^ 256 \<Longrightarrow> unat (i + 1) = unat i + 1"
  by (simp add: unat_word_ariths)

lemma collectCts_eq:
  "unat n + 1 < 2 ^ 256 \<Longrightarrow> unat i \<le> unat n + 1 \<Longrightarrow>
   collectCts s b i n acc =
     Some (acc @ concat (map (\<lambda>k. [toBytes32 (ability (lemmings s b (of_nat k))),
                                    toBytes32 (xCoord (lemmings s b (of_nat k))),
                                    toBytes32 (yCoord (lemmings s b (of_nat k)))])
                         [unat i ..< Suc (unat n)]))"
proof (induction s b i n acc rule: collectCts.induct)
  case (1 s b i n cts)
  show ?case
  proof (cases "i \<le> n")
    case True
    then have le: "unat i \<le> unat n" by (simp add: word_le_nat_alt)
    with "1.prems" have nov: "unat i + 1 < 2 ^ 256" by simp
    have step: "unat (i + 1) = Suc (unat i)" using unat_succ_word [OF nov] by simp
    have upt: "[unat i ..< Suc (unat n)] = unat i # [Suc (unat i) ..< Suc (unat n)]"
      using le by (simp add: upt_conv_Cons)
    have ih: "collectCts s b (i + 1) n (cts @ [toBytes32 (ability (lemmings s b i)),
                 toBytes32 (xCoord (lemmings s b i)), toBytes32 (yCoord (lemmings s b i))]) =
          Some ((cts @ [toBytes32 (ability (lemmings s b i)),
                 toBytes32 (xCoord (lemmings s b i)), toBytes32 (yCoord (lemmings s b i))]) @
             concat (map (\<lambda>k. [toBytes32 (ability (lemmings s b (of_nat k))),
                                    toBytes32 (xCoord (lemmings s b (of_nat k))),
                                    toBytes32 (yCoord (lemmings s b (of_nat k)))])
                         [unat (i + 1) ..< Suc (unat n)]))"
      using "1.IH" [OF True refl refl nov "1.prems"(1)] le step by simp
    have "collectCts s b i n cts = collectCts s b (i + 1) n (cts @ [toBytes32 (ability (lemmings s b i)),
                 toBytes32 (xCoord (lemmings s b i)), toBytes32 (yCoord (lemmings s b i))])"
      using True nov by (subst collectCts.simps) (simp add: Let_def)
    then show ?thesis
      using ih upt step by simp
  next
    case False
    then have "unat n < unat i" by (simp add: word_le_nat_alt)
    with "1.prems" have "[unat i ..< Suc (unat n)] = []" by simp
    moreover have "collectCts s b i n cts = Some cts"
      using False by (subst collectCts.simps) simp
    ultimately show ?thesis by simp
  qed
qed

lemma decodeTriple_Inr:
  "decodeTriple ext ct idx = Inr ((a, vx, vy), idx') \<Longrightarrow>
     decodeAt ext ct idx = Inr a \<and> decodeAt ext ct (idx + 32) = Inr vx \<and>
     decodeAt ext ct (idx + 64) = Inr vy \<and> idx' = idx + 96"
  unfolding decodeTriple_def checked_add_def
  by (clarsimp simp: add.assoc split: sum.splits option.splits if_splits)

lemma decodeLoop_Inr:
  "decodeLoop ext ct i n idx as xs ys = Inr res \<Longrightarrow> unat i \<le> unat n \<Longrightarrow>
   \<exists>as2 xs2 ys2.
      res = (as @ as2, xs @ xs2, ys @ ys2) \<and>
      length as2 = unat n - unat i \<and> length xs2 = unat n - unat i \<and>
      length ys2 = unat n - unat i \<and>
      (\<forall>k < unat n - unat i.
          decodeAt ext ct (idx + of_nat (96 * k)) = Inr (as2 ! k) \<and>
          decodeAt ext ct (idx + of_nat (96 * k + 32)) = Inr (xs2 ! k) \<and>
          decodeAt ext ct (idx + of_nat (96 * k + 64)) = Inr (ys2 ! k))"
proof (induction ext ct i n idx as xs ys arbitrary: res rule: decodeLoop.induct)
  case (1 ext ct i n idx as xs ys)
  show ?case
  proof (cases "i < n")
    case False
    then have "unat i = unat n" using "1.prems"(2) by (simp add: word_less_nat_alt)
    moreover have "res = (as, xs, ys)"
      using "1.prems"(1) False by (subst (asm) decodeLoop.simps) simp
    ultimately show ?thesis by simp
  next
    case True
    then have lt: "unat i < unat n" by (simp add: word_less_nat_alt)
    have "unat n < 2 ^ 256" using unsigned_less [of n] by simp
    then have step: "unat (i + 1) = Suc (unat i)"
      using lt by (simp add: unat_word_ariths)
    from "1.prems"(1) True obtain a vx vy idx' where
      tr: "decodeTriple ext ct idx = Inr ((a, vx, vy), idx')" and
      rec: "decodeLoop ext ct (i + 1) n idx' (as @ [a]) (xs @ [vx]) (ys @ [vy]) = Inr res"
      by (subst (asm) decodeLoop.simps) (auto split: sum.splits prod.splits)
    note d = decodeTriple_Inr [OF tr]
    have le': "unat (i + 1) \<le> unat n" using lt step by simp
    from "1.IH" [OF True tr refl refl refl rec le']
    obtain as3 xs3 ys3 where
      res: "res = ((as @ [a]) @ as3, (xs @ [vx]) @ xs3, (ys @ [vy]) @ ys3)" and
      len: "length as3 = unat n - unat (i + 1)" "length xs3 = unat n - unat (i + 1)"
           "length ys3 = unat n - unat (i + 1)" and
      rd: "\<forall>k < unat n - unat (i + 1).
          decodeAt ext ct (idx' + of_nat (96 * k)) = Inr (as3 ! k) \<and>
          decodeAt ext ct (idx' + of_nat (96 * k + 32)) = Inr (xs3 ! k) \<and>
          decodeAt ext ct (idx' + of_nat (96 * k + 64)) = Inr (ys3 ! k)"
      by auto
    have reads: "decodeAt ext ct (idx + of_nat (96 * k)) = Inr ((a # as3) ! k) \<and>
          decodeAt ext ct (idx + of_nat (96 * k + 32)) = Inr ((vx # xs3) ! k) \<and>
          decodeAt ext ct (idx + of_nat (96 * k + 64)) = Inr ((vy # ys3) ! k)"
      if k: "k < unat n - unat i" for k
    proof (cases k)
      case 0
      then show ?thesis using d by simp
    next
      case (Suc j)
      then have "j < unat n - unat (i + 1)" using k step by simp
      with rd have rdj: "decodeAt ext ct (idx' + of_nat (96 * j)) = Inr (as3 ! j) \<and>
          decodeAt ext ct (idx' + of_nat (96 * j + 32)) = Inr (xs3 ! j) \<and>
          decodeAt ext ct (idx' + of_nat (96 * j + 64)) = Inr (ys3 ! j)" by blast
      have e: "idx + of_nat (96 * Suc j) = idx' + of_nat (96 * j)"
        "idx + of_nat (96 * Suc j + 32) = idx' + of_nat (96 * j + 32)"
        "idx + of_nat (96 * Suc j + 64) = idx' + of_nat (96 * j + 64)"
        using d by (simp_all add: algebra_simps)
      show ?thesis unfolding Suc e nth_Cons_Suc by (rule rdj)
    qed
    show ?thesis
      apply (rule exI [of _ "a # as3"], rule exI [of _ "vx # xs3"], rule exI [of _ "vy # ys3"])
      using res len reads lt step by simp
  qed
qed

subsection \<open>A revert is raised before any write\<close>

lemma transferOwnership_revert: "transferOwnership e a s = Inl (err, s') \<Longrightarrow> s' = s"
  unfolding transferOwnership_def Let_def by (simp split: option.splits)

lemma addProvider_revert: "addProvider e a s = Inl (err, s') \<Longrightarrow> s' = s"
  unfolding addProvider_def by (simp split: option.splits)

lemma removeProvider_revert: "removeProvider e a s = Inl (err, s') \<Longrightarrow> s' = s"
  unfolding removeProvider_def by (simp split: option.splits)

lemma setPaused_revert: "setPaused e p s = Inl (err, s') \<Longrightarrow> s' = s"
  unfolding setPaused_def by (simp split: option.splits if_splits)

lemma setCooldownSeconds_revert: "setCooldownSeconds e n s = Inl (err, s') \<Longrightarrow> s' = s"
  unfolding setCooldownSeconds_def Let_def by (simp split: option.splits)

lemma openBatch_revert: "openBatch e s = Inl (err, s') \<Longrightarrow> s' = s"
  unfolding openBatch_def Let_def by (simp split: option.splits)

lemma closeBatch_revert: "closeBatch e b s = Inl (err, s') \<Longrightarrow> s' = s"
  unfolding closeBatch_def by (simp split: option.splits if_splits)

lemma submitLemming_revert: "submitLemming e b a vx vy s = Inl (err, s') \<Longrightarrow> s' = s"
  unfolding submitLemming_def Let_def
  by (simp split: option.splits if_splits)

lemma requestBatchDecryption_revert: "requestBatchDecryption ext e b s = Inl (err, s') \<Longrightarrow> s' = s"
  unfolding requestBatchDecryption_def Let_def
  by (simp split: option.splits if_splits)

lemma myCallback_revert: "myCallback ext e r ct prf s = Inl (err, s') \<Longrightarrow> s' = s"
  unfolding myCallback_def Let_def
  by (simp split: option.splits if_splits sum.splits prod.splits)

lemma execute_revert: "execute ext e c s = Inl (err, s') \<Longrightarrow> s' = s"
  by (cases c)
    (simp_all add: transferOwnership_revert addProvider_revert removeProvider_revert
      setPaused_revert setCooldownSeconds_revert openBatch_revert closeBatch_revert
      submitLemming_revert requestBatchDecryption_revert myCallback_revert)

subsection \<open>What a completed call has checked and written\<close>

lemma transferOwnership_Inr:
  "transferOwnership e a s = Inr (s', evs) \<Longrightarrow>
     msg_sender e = owner s \<and> s' = s\<lparr>owner := a\<rparr> \<and> evs = [OwnershipTransferred (owner s) a]"
  unfolding transferOwnership_def onlyOwner_def Let_def
  by (clarsimp split: option.splits if_splits)

lemma addProvider_Inr:
  "addProvider e a s = Inr (s', evs) \<Longrightarrow>
     msg_sender e = owner s \<and> s' = s\<lparr>isProvider := (isProvider s)(a := True)\<rparr> \<and>
     evs = [ProviderAdded a]"
  unfolding addProvider_def onlyOwner_def
  by (clarsimp split: option.splits if_splits)

lemma removeProvider_Inr:
  "removeProvider e a s = Inr (s', evs) \<Longrightarrow>
     msg_sender e = owner s \<and> s' = s\<lparr>isProvider := (isProvider s)(a := False)\<rparr> \<and>
     evs = [ProviderRemoved a]"
  unfolding removeProvider_def onlyOwner_def
  by (clarsimp split: option.splits if_splits)

lemma setPaused_Inr:
  "setPaused e p s = Inr (s', evs) \<Longrightarrow>
     msg_sender e = owner s \<and> s' = s\<lparr>paused := p\<rparr> \<and>
     evs = [if p then Paused (msg_sender e) else Unpaused (msg_sender e)]"
  unfolding setPaused_def onlyOwner_def
  by (clarsimp split: option.splits if_splits)

lemma setCooldownSeconds_Inr:
  "setCooldownSeconds e n s = Inr (s', evs) \<Longrightarrow>
     msg_sender e = owner s \<and> s' = s\<lparr>cooldownSeconds := n\<rparr> \<and>
     evs = [CooldownSecondsSet (cooldownSeconds s) n]"
  unfolding setCooldownSeconds_def onlyOwner_def Let_def
  by (clarsimp split: option.splits if_splits)

lemma openBatch_Inr:
  "openBatch e s = Inr (s', evs) \<Longrightarrow>
     msg_sender e = owner s \<and> \<not> paused s \<and> unat (currentBatchId s) + 1 < 2 ^ 256 \<and>
     s' = s\<lparr>currentBatchId := currentBatchId s + 1,
             isBatchOpen := (isBatchOpen s)(currentBatchId s + 1 := True)\<rparr> \<and>
     evs = [BatchOpened (currentBatchId s + 1)]"
  unfolding openBatch_def onlyOwner_def whenNotPaused_def checked_add_def Let_def
  by (clarsimp split: option.splits if_splits)

lemma closeBatch_Inr:
  "closeBatch e b s = Inr (s', evs) \<Longrightarrow>
     msg_sender e = owner s \<and> isBatchOpen s b \<and>
     s' = s\<lparr>isBatchOpen := (isBatchOpen s)(b := False)\<rparr> \<and> evs = [BatchClosed b]"
  unfolding closeBatch_def onlyOwner_def
  by (clarsimp split: option.splits if_splits)

lemma submitLemming_Inr:
  "submitLemming e b a vx vy s = Inr (s', evs) \<Longrightarrow>
     isProvider s (msg_sender e) \<and> \<not> paused s \<and>
     respectCooldown e s (msg_sender e) (lastSubmissionTime s) = None \<and>
     isBatchOpen s b \<and> unat (lemmingCountInBatch s b) + 1 < 2 ^ 256 \<and>
     s' = s\<lparr>lemmingCountInBatch := (lemmingCountInBatch s)(b := lemmingCountInBatch s b + 1),
             lemmings := (lemmings s)(b := (lemmings s b)(lemmingCountInBatch s b + 1 :=
                \<lparr>ability = a, xCoord = vx, yCoord = vy\<rparr>)),
             lastSubmissionTime := (lastSubmissionTime s)(msg_sender e := block_timestamp e)\<rparr> \<and>
     evs = [LemmingSubmitted (msg_sender e) b (lemmingCountInBatch s b + 1)]"
  unfolding submitLemming_def onlyProvider_def whenNotPaused_def checked_add_def Let_def
  by (clarsimp split: option.splits if_splits)

lemma requestBatchDecryption_Inr:
  "requestBatchDecryption ext e b s = Inr (s', evs) \<Longrightarrow>
     msg_sender e = owner s \<and> \<not> paused s \<and>
     respectCooldown e s (msg_sender e) (lastDecryptionRequestTime s) = None \<and>
     lemmingCountInBatch s b \<noteq> 0 \<and> unat (lemmingCountInBatch s b) * 3 < 2 ^ 256 \<and>
     (\<exists>cts. collectCts s b 1 (lemmingCountInBatch s b) [] = Some cts \<and>
        s' = s\<lparr>decryptionContexts := (decryptionContexts s)(oracle_requestId e :=
                  \<lparr>batchId = b, stateHash = hashCiphertexts ext cts, processed = False\<rparr>),
                lastDecryptionRequestTime :=
                  (lastDecryptionRequestTime s)(msg_sender e := block_timestamp e)\<rparr> \<and>
        evs = [DecryptionRequested (oracle_requestId e) b (hashCiphertexts ext cts)])"
  unfolding requestBatchDecryption_def onlyOwner_def whenNotPaused_def checked_mul_def Let_def
  by (clarsimp split: option.splits if_splits)

lemma myCallback_Inr:
  "myCallback ext e r ct prf s = Inr (s', evs) \<Longrightarrow>
     \<not> processed (decryptionContexts s r) \<and>
     lemmingCountInBatch s (batchId (decryptionContexts s r)) \<noteq> 0 \<and>
     (\<exists>cts. collectCts s (batchId (decryptionContexts s r)) 1
              (lemmingCountInBatch s (batchId (decryptionContexts s r))) [] = Some cts \<and>
        hashCiphertexts ext cts = stateHash (decryptionContexts s r)) \<and>
     checkSignatures ext r ct prf \<and>
     (\<exists>abilities xs ys.
        decodeLoop ext ct 0 (lemmingCountInBatch s (batchId (decryptionContexts s r))) 0 [] [] []
          = Inr (abilities, xs, ys) \<and>
        s' = s\<lparr>decryptionContexts := (decryptionContexts s)(r :=
                  (decryptionContexts s r)\<lparr>processed := True\<rparr>)\<rparr> \<and>
        evs = [DecryptionCompleted r (batchId (decryptionContexts s r)) abilities xs ys])"
  unfolding myCallback_def Let_def
  by (clarsimp split: option.splits if_splits sum.splits prod.splits)

subsection \<open>Running the model on the sample inputs\<close>

lemmas eval_defs = transact_def transferOwnership_def addProvider_def removeProvider_def
  setPaused_def setCooldownSeconds_def openBatch_def closeBatch_def submitLemming_def
  requestBatchDecryption_def myCallback_def
  onlyOwner_def onlyProvider_def whenNotPaused_def respectCooldown_def
  checked_add_def checked_mul_def Let_def hashCiphertexts_def toBytes32_def
  collectCts.simps decodeLoop.simps decodeTriple_def decodeAt_def abi_decode_uint256_def
  be_word_def bytes_slice_def word32_def
  word_le_nat_alt word_less_nat_alt
  deployed_def constructor_def at_time_def alice_def bob_def sample_externals_def

lemma be_word_zeros [simp]:
  "foldl (\<lambda>acc b. acc * 256 + ucast b) 0 (replicate n (0::8 word)) = (0::uint256)"
  by (induction n) simp_all

lemma requested_eq:
  "requested =
     \<lparr>owner = 10, isProvider = (\<lambda>_. False)(11 := True), paused = False,
      cooldownSeconds = 0, lastSubmissionTime = (\<lambda>_. 0)(11 := 3),
      lastDecryptionRequestTime = (\<lambda>_. 0)(10 := 4), currentBatchId = 1,
      isBatchOpen = (\<lambda>_. False)(1 := True),
      decryptionContexts =
        (\<lambda>_. \<lparr>batchId = 0, stateHash = 0, processed = False\<rparr>)
        (7 := \<lparr>batchId = 1, stateHash = 3110736, processed = False\<rparr>),
      lemmings =
        (\<lambda>_ _. \<lparr>ability = 0, xCoord = 0, yCoord = 0\<rparr>)
        (1 := (\<lambda>_. \<lparr>ability = 0, xCoord = 0, yCoord = 0\<rparr>)
           (1 := \<lparr>ability = 161, xCoord = 178, yCoord = 195\<rparr>)),
      lemmingCountInBatch = (\<lambda>_. 0)(1 := 1)\<rparr>"
  by (simp add: requested_def scenario_def eval_defs)

lemma cooled_eq:
  "cooled =
     \<lparr>owner = 10, isProvider = (\<lambda>_. False)(11 := True), paused = False,
      cooldownSeconds = 60, lastSubmissionTime = \<lambda>_. 0,
      lastDecryptionRequestTime = \<lambda>_. 0, currentBatchId = 1,
      isBatchOpen = (\<lambda>_. False)(1 := True),
      decryptionContexts = \<lambda>_. \<lparr>batchId = 0, stateHash = 0, processed = False\<rparr>,
      lemmings = \<lambda>_ _. \<lparr>ability = 0, xCoord = 0, yCoord = 0\<rparr>,
      lemmingCountInBatch = \<lambda>_. 0\<rparr>"
  by (simp add: cooled_def eval_defs)

lemma paused_open_eq:
  "paused_open =
     \<lparr>owner = 10, isProvider = (\<lambda>_. False)(11 := True), paused = True, cooldownSeconds = 0,
      lastSubmissionTime = \<lambda>_. 0, lastDecryptionRequestTime = \<lambda>_. 0,
      currentBatchId = 1, isBatchOpen = (\<lambda>_. False)(1 := True),
      decryptionContexts = \<lambda>_. \<lparr>batchId = 0, stateHash = 0, processed = False\<rparr>,
      lemmings = \<lambda>_ _. \<lparr>ability = 0, xCoord = 0, yCoord = 0\<rparr>,
      lemmingCountInBatch = \<lambda>_. 0\<rparr>"
  by (simp add: paused_open_def eval_defs)

lemma overflowing_eq:
  "overflowing =
     \<lparr>owner = 10, isProvider = (\<lambda>_. False)(11 := True), paused = False,
      cooldownSeconds =
        115792089237316195423570985008687907853269984665640564039457584007913129639935,
      lastSubmissionTime = (\<lambda>_. 0)(11 := 3),
      lastDecryptionRequestTime = \<lambda>_. 0, currentBatchId = 1,
      isBatchOpen = (\<lambda>_. False)(1 := True),
      decryptionContexts = \<lambda>_. \<lparr>batchId = 0, stateHash = 0, processed = False\<rparr>,
      lemmings =
        (\<lambda>_ _. \<lparr>ability = 0, xCoord = 0, yCoord = 0\<rparr>)
        (1 := (\<lambda>_. \<lparr>ability = 0, xCoord = 0, yCoord = 0\<rparr>)
           (1 := \<lparr>ability = 161, xCoord = 178, yCoord = 195\<rparr>)),
      lemmingCountInBatch = (\<lambda>_. 0)(1 := 1)\<rparr>"
  by (simp add: overflowing_def eval_defs)

lemma finalized_eq:
  "finalized =
     \<lparr>owner = 10, isProvider = (\<lambda>_. False)(11 := True), paused = False,
      cooldownSeconds = 0, lastSubmissionTime = (\<lambda>_. 0)(11 := 3),
      lastDecryptionRequestTime = (\<lambda>_. 0)(10 := 4), currentBatchId = 1,
      isBatchOpen = (\<lambda>_. False)(1 := True),
      decryptionContexts =
        (\<lambda>_. \<lparr>batchId = 0, stateHash = 0, processed = False\<rparr>)
        (7 := \<lparr>batchId = 1, stateHash = 3110736, processed = True\<rparr>),
      lemmings =
        (\<lambda>_ _. \<lparr>ability = 0, xCoord = 0, yCoord = 0\<rparr>)
        (1 := (\<lambda>_. \<lparr>ability = 0, xCoord = 0, yCoord = 0\<rparr>)
           (1 := \<lparr>ability = 161, xCoord = 178, yCoord = 195\<rparr>)),
      lemmingCountInBatch = (\<lambda>_. 0)(1 := 1)\<rparr>"
  unfolding finalized_def requested_eq by (simp add: sample_cleartexts_def eval_defs)

lemma sample_callback:
  "myCallback sample_externals (at_time bob 5) 7 sample_cleartexts [1] requested
     = Inr (finalized, [DecryptionCompleted 7 1 [2] [5] [7]])"
  unfolding finalized_eq unfolding requested_eq by (simp add: sample_cleartexts_def eval_defs)

lemma submitted_eq:
  "submitted =
     \<lparr>owner = 10, isProvider = (\<lambda>_. False)(11 := True), paused = False,
      cooldownSeconds = 0, lastSubmissionTime = (\<lambda>_. 0)(11 := 3),
      lastDecryptionRequestTime = \<lambda>_. 0, currentBatchId = 1,
      isBatchOpen = (\<lambda>_. False)(1 := True),
      decryptionContexts = \<lambda>_. \<lparr>batchId = 0, stateHash = 0, processed = False\<rparr>,
      lemmings =
        (\<lambda>_ _. \<lparr>ability = 0, xCoord = 0, yCoord = 0\<rparr>)
        (1 := (\<lambda>_. \<lparr>ability = 0, xCoord = 0, yCoord = 0\<rparr>)
           (1 := \<lparr>ability = 161, xCoord = 178, yCoord = 195\<rparr>)),
      lemmingCountInBatch = (\<lambda>_. 0)(1 := 1)\<rparr>"
  by (simp add: submitted_def eval_defs)

lemma drifted_eq:
  "drifted =
     \<lparr>owner = 10, isProvider = (\<lambda>_. False)(11 := True), paused = False,
      cooldownSeconds = 0, lastSubmissionTime = (\<lambda>_. 0)(11 := 5),
      lastDecryptionRequestTime = (\<lambda>_. 0)(10 := 4), currentBatchId = 1,
      isBatchOpen = (\<lambda>_. False)(1 := True),
      decryptionContexts =
        (\<lambda>_. \<lparr>batchId = 0, stateHash = 0, processed = False\<rparr>)
        (7 := \<lparr>batchId = 1, stateHash = 3110736, processed = False\<rparr>),
      lemmings =
        (\<lambda>_ _. \<lparr>ability = 0, xCoord = 0, yCoord = 0\<rparr>)
        (1 := (\<lambda>_. \<lparr>ability = 0, xCoord = 0, yCoord = 0\<rparr>)
           (1 := \<lparr>ability = 161, xCoord = 178, yCoord = 195\<rparr>,
            2 := \<lparr>ability = 162, xCoord = 179, yCoord = 196\<rparr>)),
      lemmingCountInBatch = (\<lambda>_. 0)(1 := 2)\<rparr>"
  unfolding drifted_def requested_eq by (simp add: eval_defs)

lemma later_log:
  "snd (run sample_externals later finalized)
     = [LemmingSubmitted 11 1 2, DecryptionRequested 8 1 92672098596]"
  unfolding later_def finalized_eq by (simp add: sample_cleartexts_def eval_defs)

lemma scenario_log:
  "snd (run sample_externals scenario deployed)
     = [ProviderAdded 11, BatchOpened 1, LemmingSubmitted 11 1 1, DecryptionRequested 7 1 3110736]"
  by (simp add: scenario_def eval_defs)





section \<open>Atomicity\<close>

text \<open>
  Claim C4. Every operation is all-or-nothing. Whenever a call of any operation of the
  contract fails, with whatever error, the storage after the transaction is the storage
  before it and no event is emitted. The model shows more: the storage at the point where
  the revert is raised is already the storage the call started from, so no operation
  writes before one of its checks.
\<close>

theorem failed_call_changes_nothing:
  "execute ext e c s = Inl (err, s') \<Longrightarrow> s' = s \<and> transact ext (e, c) s = (s, [])"
  by (simp add: execute_revert transact_def)

theorem failed_call_changes_nothing_witness:
  "execute sample_externals (at_time bob 5) (MyCallback 7 sample_cleartexts [0]) requested
     = Inl (CheckSignaturesReverted, requested) \<and>
   transact sample_externals (at_time bob 5, MyCallback 7 sample_cleartexts [0]) requested
     = (requested, [])"
proof -
  have h: "execute sample_externals (at_time bob 5) (MyCallback 7 sample_cleartexts [0]) requested
     = Inl (CheckSignaturesReverted, requested)"
    unfolding requested_eq by (simp add: sample_cleartexts_def eval_defs)
  from failed_call_changes_nothing [OF h] h show ?thesis by simp
qed

section \<open>Cooldown of a principal that has never acted\<close>

lemma respectCooldown_fresh:
  "m u = 0 \<Longrightarrow> block_timestamp e < cooldownSeconds s \<Longrightarrow>
     respectCooldown e s u m = Some CooldownActive"
  unfolding respectCooldown_def checked_add_def
  using unsigned_less [of "cooldownSeconds s", where 'a = nat] by simp

lemma submitLemming_fresh:
  assumes "isProvider s (msg_sender e)" "\<not> paused s"
    "lastSubmissionTime s (msg_sender e) = 0" "block_timestamp e < cooldownSeconds s"
  shows "submitLemming e b a vx vy s = Inl (CooldownActive, s)"
proof -
  have "respectCooldown e s (msg_sender e) (lastSubmissionTime s) = Some CooldownActive"
    using assms(3,4) by (rule respectCooldown_fresh)
  then show ?thesis
    using assms(1,2) by (simp add: submitLemming_def onlyProvider_def whenNotPaused_def)
qed

lemma requestBatchDecryption_fresh:
  assumes "msg_sender e = owner s" "\<not> paused s"
    "lastDecryptionRequestTime s (msg_sender e) = 0" "block_timestamp e < cooldownSeconds s"
  shows "requestBatchDecryption ext e b s = Inl (CooldownActive, s)"
proof -
  have "respectCooldown e s (msg_sender e) (lastDecryptionRequestTime s) = Some CooldownActive"
    using assms(3,4) by (rule respectCooldown_fresh)
  then show ?thesis
    using assms(1,2) by (simp add: requestBatchDecryption_def onlyOwner_def whenNotPaused_def)
qed

text \<open>
  Claim C9. With a cooldown window \<open>w > 0\<close>, a principal whose stored timestamp is still
  the default 0 is rejected with \<open>CooldownActive\<close> on a first \<open>submitLemming\<close> (as an
  authorised provider) or \<open>requestBatchDecryption\<close> (as the owner) at any time
  \<open>now < w\<close>, while the contract is not paused: the guard compares \<open>now\<close> with
  \<open>0 + w\<close> and cannot tell "never acted" from "acted at time 0".
\<close>

theorem first_action_inside_window_rejected:
  "(isProvider s (msg_sender e) \<and> \<not> paused s \<and> lastSubmissionTime s (msg_sender e) = 0 \<and>
      block_timestamp e < cooldownSeconds s
      \<longrightarrow> submitLemming e b a vx vy s = Inl (CooldownActive, s)) \<and>
   (msg_sender e = owner s \<and> \<not> paused s \<and> lastDecryptionRequestTime s (msg_sender e) = 0 \<and>
      block_timestamp e < cooldownSeconds s
      \<longrightarrow> requestBatchDecryption ext e b s = Inl (CooldownActive, s))"
  using submitLemming_fresh [of s e b a vx vy] requestBatchDecryption_fresh [of e s ext b]
  by blast

theorem first_action_inside_window_rejected_witness:
  "isProvider cooled (msg_sender (at_time bob 30)) \<and> \<not> paused cooled \<and>
   lastSubmissionTime cooled (msg_sender (at_time bob 30)) = 0 \<and>
   block_timestamp (at_time bob 30) < cooldownSeconds cooled \<and>
   submitLemming (at_time bob 30) 1 161 178 195 cooled = Inl (CooldownActive, cooled) \<and>
   msg_sender (at_time alice 30) = owner cooled \<and>
   lastDecryptionRequestTime cooled (msg_sender (at_time alice 30)) = 0 \<and>
   block_timestamp (at_time alice 30) < cooldownSeconds cooled \<and>
   requestBatchDecryption sample_externals (at_time alice 30) 1 cooled = Inl (CooldownActive, cooled)"
proof -
  have h1: "isProvider cooled (msg_sender (at_time bob 30)) \<and> \<not> paused cooled \<and>
      lastSubmissionTime cooled (msg_sender (at_time bob 30)) = 0 \<and>
      block_timestamp (at_time bob 30) < cooldownSeconds cooled"
    unfolding cooled_eq by (simp add: at_time_def bob_def word_less_nat_alt)
  have h2: "msg_sender (at_time alice 30) = owner cooled \<and> \<not> paused cooled \<and>
      lastDecryptionRequestTime cooled (msg_sender (at_time alice 30)) = 0 \<and>
      block_timestamp (at_time alice 30) < cooldownSeconds cooled"
    unfolding cooled_eq by (simp add: at_time_def alice_def word_less_nat_alt)
  from first_action_inside_window_rejected
         [where s = cooled and e = "at_time bob 30" and b = 1 and a = 161 and vx = 178 and vy = 195]
       first_action_inside_window_rejected
         [where s = cooled and e = "at_time alice 30" and ext = sample_externals and b = 1]
       h1 h2
  show ?thesis by blast
qed

section \<open>A callback for a request id that was never recorded\<close>

text \<open>
  Claim C3 says that \<open>myCallback\<close> looks the request up first and fails with
  \<open>UnknownRequest\<close> when there is none. The contract declares no such error and has no
  lookup that can fail: the mapping returns the default context. In the sample scenario
  request 7 is recorded and request 8 is not; the callback for 8 reverts with
  \<open>InvalidBatchId\<close>.
\<close>

theorem unrecorded_request_counterexample:
  "myCallback sample_externals (at_time bob 5) 8 sample_cleartexts [1] requested
     = Inl (InvalidBatchId, requested)"
  unfolding requested_eq by (simp add: eval_defs)

text \<open>
  Claim C3, amended. For a request id with no recorded request, that is, whose context
  holds the default values, and with batch 0 empty, \<open>myCallback\<close> passes the replay
  check (\<open>processed\<close> is false), reads batch 0 and reverts with \<open>InvalidBatchId\<close>. This
  happens before the commitment is recomputed and before the proof is verified: the
  result is the same whatever the hash and the signature check are.
\<close>

theorem unrecorded_request_reverts_invalid_batch:
  "decryptionContexts s r = \<lparr>batchId = 0, stateHash = 0, processed = False\<rparr> \<Longrightarrow>
   lemmingCountInBatch s 0 = 0 \<Longrightarrow>
   myCallback ext e r ct prf s = Inl (InvalidBatchId, s)"
  unfolding myCallback_def by simp

theorem unrecorded_request_reverts_invalid_batch_witness:
  "decryptionContexts deployed 8 = \<lparr>batchId = 0, stateHash = 0, processed = False\<rparr> \<and>
   lemmingCountInBatch deployed 0 = 0 \<and>
   myCallback sample_externals (at_time bob 5) 8 sample_cleartexts [1] deployed
     = Inl (InvalidBatchId, deployed)"
proof -
  have h1: "decryptionContexts deployed 8 = \<lparr>batchId = 0, stateHash = 0, processed = False\<rparr>"
    by (simp add: deployed_def constructor_def)
  have h2: "lemmingCountInBatch deployed 0 = 0"
    by (simp add: deployed_def constructor_def)
  from unrecorded_request_reverts_invalid_batch [OF h1 h2] h1 h2 show ?thesis by simp
qed

section \<open>The pause flag\<close>

lemma collectCts_lemmings_cong:
  "lemmings s' = lemmings s \<Longrightarrow> collectCts s' b i n acc = collectCts s b i n acc"
proof (induction s b i n acc rule: collectCts.induct)
  case (1 s b i n cts)
  show ?case
  proof (cases "i \<le> n \<and> unat i + 1 < 2 ^ 256")
    case True
    then have "collectCts s' b (i + 1) n (cts @ [toBytes32 (ability (lemmings s b i)),
        toBytes32 (xCoord (lemmings s b i)), toBytes32 (yCoord (lemmings s b i))]) =
      collectCts s b (i + 1) n (cts @ [toBytes32 (ability (lemmings s b i)),
        toBytes32 (xCoord (lemmings s b i)), toBytes32 (yCoord (lemmings s b i))])"
      using "1.IH" [OF _ refl refl _ "1.prems"] by simp
    then show ?thesis
      using True "1.prems"
      by (subst collectCts.simps [of s'], subst collectCts.simps [of s]) (simp add: Let_def)
  next
    case False
    then show ?thesis
      using "1.prems"
      by (subst collectCts.simps [of s'], subst collectCts.simps [of s]) (auto simp: Let_def)
  qed
qed

lemma collectCts_paused [simp]:
  "collectCts (s\<lparr>paused := p\<rparr>) b i n acc = collectCts s b i n acc"
  by (rule collectCts_lemmings_cong) simp

text \<open>
  Claim C5 says that, while the pause flag is set, every mutating operation except the
  unpause is rejected, \<open>closeBatch\<close>, \<open>transferOwnership\<close>, \<open>addProvider\<close>,
  \<open>removeProvider\<close> and \<open>setCooldownSeconds\<close> included. Only \<open>openBatch\<close>,
  \<open>submitLemming\<close> and \<open>requestBatchDecryption\<close> carry the modifier \<open>whenNotPaused\<close>:
  in a paused contract with batch 1 open, the owner's \<open>closeBatch(1)\<close> completes and
  closes the batch.
\<close>

theorem pause_counterexample:
  "paused paused_open \<and> isBatchOpen paused_open 1 \<and>
   execute sample_externals (at_time alice 4) (CloseBatch 1) paused_open
     = Inr (paused_open\<lparr>isBatchOpen := (isBatchOpen paused_open)(1 := False)\<rparr>, [BatchClosed 1]) \<and>
   \<not> isBatchOpen (fst (transact sample_externals (at_time alice 4, CloseBatch 1) paused_open)) 1"
  unfolding paused_open_eq by (simp add: eval_defs)

text \<open>
  An operation without the modifier \<open>whenNotPaused\<close> gives the same result whatever the
  flag is: the same error or the same events, and the same storage but for the flag
  itself, which only \<open>setPaused\<close> writes.
\<close>

lemma ungated_same_result:
  assumes "c \<noteq> OpenBatch" "\<forall>b a vx vy. c \<noteq> SubmitLemming b a vx vy"
    "\<forall>b. c \<noteq> RequestBatchDecryption b"
  shows "execute ext e c (s\<lparr>paused := p\<rparr>) =
           (case execute ext e c s of
              Inl (err, s') \<Rightarrow> Inl (err, s'\<lparr>paused := p\<rparr>)
            | Inr (s', evs) \<Rightarrow>
                Inr (case c of SetPaused q \<Rightarrow> s' | _ \<Rightarrow> s'\<lparr>paused := p\<rparr>, evs))"
proof (cases c)
  case (MyCallback r ct pf)
  then show ?thesis
    by (simp add: myCallback_def Let_def split: option.splits sum.splits prod.splits)
qed (use assms in \<open>simp_all add: transferOwnership_def addProvider_def removeProvider_def
      setPaused_def setCooldownSeconds_def closeBatch_def onlyOwner_def Let_def\<close>)

lemma close_while_paused:
  "execute sample_externals (at_time alice 4) (CloseBatch 1) paused_open
     = Inr (paused_open\<lparr>isBatchOpen := (isBatchOpen paused_open)(1 := False)\<rparr>, [BatchClosed 1])"
  unfolding paused_open_eq by (simp add: eval_defs)

text \<open>
  Claim C5, amended. While the pause flag is set, \<open>openBatch\<close>, \<open>submitLemming\<close> and
  \<open>requestBatchDecryption\<close> are rejected and change no state, with \<open>PausedState\<close> once
  the caller has passed the role check that precedes the pause check (\<open>NotOwner\<close> or
  \<open>NotProvider\<close> otherwise). Every other operation (\<open>closeBatch\<close>,
  \<open>transferOwnership\<close>, \<open>addProvider\<close>, \<open>removeProvider\<close>, \<open>setCooldownSeconds\<close>,
  \<open>setPaused\<close>, \<open>myCallback\<close>) does not read the flag: it completes or reverts exactly
  as it would in the same state unpaused, with the same error or the same events and the
  same storage up to the flag.
\<close>

theorem pause_gates_three_operations:
  assumes "paused s"
  shows "(\<exists>err. openBatch e s = Inl (err, s)) \<and>
         (msg_sender e = owner s \<longrightarrow> openBatch e s = Inl (PausedState, s)) \<and>
         (\<exists>err. submitLemming e b a vx vy s = Inl (err, s)) \<and>
         (isProvider s (msg_sender e) \<longrightarrow> submitLemming e b a vx vy s = Inl (PausedState, s)) \<and>
         (\<exists>err. requestBatchDecryption ext e b s = Inl (err, s)) \<and>
         (msg_sender e = owner s \<longrightarrow> requestBatchDecryption ext e b s = Inl (PausedState, s)) \<and>
         (c \<noteq> OpenBatch \<and> (\<forall>b a vx vy. c \<noteq> SubmitLemming b a vx vy) \<and>
            (\<forall>b. c \<noteq> RequestBatchDecryption b)
          \<longrightarrow> execute ext e c (s\<lparr>paused := False\<rparr>) =
                (case execute ext e c s of
                   Inl (err, s') \<Rightarrow> Inl (err, s'\<lparr>paused := False\<rparr>)
                 | Inr (s', evs) \<Rightarrow>
                     Inr (case c of SetPaused q \<Rightarrow> s' | _ \<Rightarrow> s'\<lparr>paused := False\<rparr>, evs)))"
proof -
  have o: "openBatch e s = Inl (if msg_sender e = owner s then PausedState else NotOwner, s)"
    using assms by (simp add: openBatch_def onlyOwner_def whenNotPaused_def)
  have sb: "submitLemming e b a vx vy s
      = Inl (if isProvider s (msg_sender e) then PausedState else NotProvider, s)"
    using assms by (simp add: submitLemming_def onlyProvider_def whenNotPaused_def)
  have rq: "requestBatchDecryption ext e b s
      = Inl (if msg_sender e = owner s then PausedState else NotOwner, s)"
    using assms by (simp add: requestBatchDecryption_def onlyOwner_def whenNotPaused_def)
  have u: "execute ext e c (s\<lparr>paused := False\<rparr>) =
             (case execute ext e c s of
                Inl (err, s') \<Rightarrow> Inl (err, s'\<lparr>paused := False\<rparr>)
              | Inr (s', evs) \<Rightarrow>
                  Inr (case c of SetPaused q \<Rightarrow> s' | _ \<Rightarrow> s'\<lparr>paused := False\<rparr>, evs))"
    if "c \<noteq> OpenBatch" "\<forall>b a vx vy. c \<noteq> SubmitLemming b a vx vy"
       "\<forall>b. c \<noteq> RequestBatchDecryption b"
    using that by (rule ungated_same_result)
  have p1: "\<exists>err. openBatch e s = Inl (err, s)" using o by simp
  have p2: "msg_sender e = owner s \<longrightarrow> openBatch e s = Inl (PausedState, s)" using o by simp
  have p3: "\<exists>err. submitLemming e b a vx vy s = Inl (err, s)" using sb by simp
  have p4: "isProvider s (msg_sender e) \<longrightarrow> submitLemming e b a vx vy s = Inl (PausedState, s)"
    using sb by simp
  have p5: "\<exists>err. requestBatchDecryption ext e b s = Inl (err, s)" using rq by simp
  have p6: "msg_sender e = owner s \<longrightarrow> requestBatchDecryption ext e b s = Inl (PausedState, s)"
    using rq by simp
  from p1 p2 p3 p4 p5 p6 u show ?thesis by blast
qed

theorem pause_gates_three_operations_witness:
  "paused paused_open \<and>
   msg_sender (at_time alice 4) = owner paused_open \<and>
   isProvider paused_open (msg_sender (at_time bob 4)) \<and>
   openBatch (at_time alice 4) paused_open = Inl (PausedState, paused_open) \<and>
   submitLemming (at_time bob 4) 1 161 178 195 paused_open = Inl (PausedState, paused_open) \<and>
   requestBatchDecryption sample_externals (at_time alice 4) 1 paused_open
     = Inl (PausedState, paused_open) \<and>
   execute sample_externals (at_time alice 4) (CloseBatch 1) paused_open
     = Inr (paused_open\<lparr>isBatchOpen := (isBatchOpen paused_open)(1 := False)\<rparr>, [BatchClosed 1]) \<and>
   execute sample_externals (at_time alice 4) (CloseBatch 1) (paused_open\<lparr>paused := False\<rparr>)
     = Inr (paused_open\<lparr>isBatchOpen := (isBatchOpen paused_open)(1 := False), paused := False\<rparr>,
            [BatchClosed 1])"
proof -
  have h: "paused paused_open"
    unfolding paused_open_eq by simp
  have a: "msg_sender (at_time alice 4) = owner paused_open"
    unfolding paused_open_eq by (simp add: at_time_def alice_def)
  have b: "isProvider paused_open (msg_sender (at_time bob 4))"
    unfolding paused_open_eq by (simp add: at_time_def bob_def)
  note ga = pause_gates_three_operations [OF h, where e = "at_time alice 4"
      and ext = sample_externals and b = 1 and c = "CloseBatch 1"]
  note gb = pause_gates_three_operations [OF h, where e = "at_time bob 4" and b = 1
      and a = 161 and vx = 178 and vy = 195]
  have o: "openBatch (at_time alice 4) paused_open = Inl (PausedState, paused_open)"
    using ga a by blast
  have r: "requestBatchDecryption sample_externals (at_time alice 4) 1 paused_open
      = Inl (PausedState, paused_open)"
    using ga a by blast
  have s: "submitLemming (at_time bob 4) 1 161 178 195 paused_open = Inl (PausedState, paused_open)"
    using gb b by blast
  have "execute sample_externals (at_time alice 4) (CloseBatch 1) (paused_open\<lparr>paused := False\<rparr>) =
      (case execute sample_externals (at_time alice 4) (CloseBatch 1) paused_open of
         Inl (err, s') \<Rightarrow> Inl (err, s'\<lparr>paused := False\<rparr>)
       | Inr (s', evs) \<Rightarrow>
           Inr (case CloseBatch 1 of SetPaused q \<Rightarrow> s' | _ \<Rightarrow> s'\<lparr>paused := False\<rparr>, evs))"
    using ga by blast
  then have c: "execute sample_externals (at_time alice 4) (CloseBatch 1) (paused_open\<lparr>paused := False\<rparr>)
     = Inr (paused_open\<lparr>isBatchOpen := (isBatchOpen paused_open)(1 := False), paused := False\<rparr>,
            [BatchClosed 1])"
    using close_while_paused by simp
  from h a b o s r close_while_paused c show ?thesis by blast
qed

section \<open>The cooldown guard\<close>

text \<open>
  The guard adds before it compares, in checked arithmetic: it panics when
  \<open>cooldownMapping[user] + cooldownSeconds\<close> does not fit in a \<open>uint256\<close>, and otherwise
  reverts with \<open>CooldownActive\<close> exactly when \<open>now - cooldownMapping[user] < cooldownSeconds\<close>.
\<close>

lemma respectCooldown_cases:
  "respectCooldown e s u m =
     (if 2 ^ 256 \<le> unat (m u) + unat (cooldownSeconds s) then Some Panic
      else if unat (block_timestamp e) < unat (m u) + unat (cooldownSeconds s)
           then Some CooldownActive else None)"
  unfolding respectCooldown_def checked_add_def
  by (simp add: word_less_nat_alt unat_word_ariths)

lemma elapsed_less_iff:
  "(uint (now :: uint256) - uint (l :: uint256) < uint (w :: uint256)) = (unat now < unat l + unat w)"
proof -
  have "(int (unat now) - int (unat l) < int (unat w)) = (unat now < unat l + unat w)"
    by arith
  then show ?thesis by (simp only: uint_nat)
qed

lemma respectCooldown_active:
  "(respectCooldown e s u m = Some CooldownActive) =
     (uint (block_timestamp e) - uint (m u) < uint (cooldownSeconds s) \<and>
      unat (m u) + unat (cooldownSeconds s) < 2 ^ 256)"
  unfolding respectCooldown_cases elapsed_less_iff by auto

lemma respectCooldown_panic:
  "(respectCooldown e s u m = Some Panic) = (2 ^ 256 \<le> unat (m u) + unat (cooldownSeconds s))"
  unfolding respectCooldown_cases by auto

text \<open>
  Claim C7. The cooldown guard is to fail with \<open>CooldownActive\<close> exactly when
  \<open>now - lastActionTime < window\<close>. The code does not at this input: Bob, an authorised
  provider, has submitted at time 3, the owner has then set the window to
  \<open>2 ^ 256 - 1\<close>, and Bob submits again at time 5, the contract not being paused. Then
  \<open>5 - 3 < window\<close>, and the call reverts with the arithmetic panic of the guard's
  checked addition instead of \<open>CooldownActive\<close> (the storage is unchanged). In the same
  state and at the same time the owner, whose stored request time is still 0, does get
  \<open>CooldownActive\<close> from the same guard on \<open>requestBatchDecryption\<close>.
\<close>

theorem cooldown_guard_panics_on_overflow:
  "isProvider overflowing bob \<and> \<not> paused overflowing \<and>
   uint (block_timestamp (at_time bob 5)) - uint (lastSubmissionTime overflowing bob)
     < uint (cooldownSeconds overflowing) \<and>
   submitLemming (at_time bob 5) 1 161 178 195 overflowing = Inl (Panic, overflowing) \<and>
   owner overflowing = alice \<and>
   uint (block_timestamp (at_time alice 5)) - uint (lastDecryptionRequestTime overflowing alice)
     < uint (cooldownSeconds overflowing) \<and>
   requestBatchDecryption sample_externals (at_time alice 5) 1 overflowing
     = Inl (CooldownActive, overflowing)"
  unfolding overflowing_eq by (simp add: eval_defs)

section \<open>Decoding the cleartexts\<close>

lemma decodeAt_bytes_slice:
  "slice ext = bytes_slice \<Longrightarrow>
   decodeAt ext ct idx =
     (if unat idx + 32 \<le> length ct then Inr (be_word (take 32 (drop (unat idx) ct)))
      else Inl SliceReverted)"
  unfolding decodeAt_def bytes_slice_def abi_decode_uint256_def by simp

lemma decodeTriple_bytes_slice:
  assumes sl: "slice ext = bytes_slice" and len: "length ct < 2 ^ 256"
  shows "decodeTriple ext ct idx =
     (if unat idx + 96 \<le> length ct
      then Inr ((be_word (take 32 (drop (unat idx) ct)),
                 be_word (take 32 (drop (unat idx + 32) ct)),
                 be_word (take 32 (drop (unat idx + 64) ct))), idx + 96)
      else Inl SliceReverted)"
proof (cases "unat idx + 32 \<le> length ct")
  case False
  then show ?thesis
    unfolding decodeTriple_def by (simp add: decodeAt_bytes_slice [OF sl])
next
  case a: True
  then have ov1: "unat idx + 32 < 2 ^ 256" using len by simp
  then have u1: "unat (idx + 32) = unat idx + 32" by (simp add: unat_word_ariths)
  have c1: "checked_add idx 32 = Some (idx + 32)"
    using ov1 by (simp add: checked_add_def)
  show ?thesis
  proof (cases "unat idx + 64 \<le> length ct")
    case False
    then show ?thesis
      unfolding decodeTriple_def using a c1 u1 by (simp add: decodeAt_bytes_slice [OF sl])
  next
    case b: True
    then have ov2: "unat (idx + 32) + 32 < 2 ^ 256" using len u1 by simp
    then have u2: "unat (idx + 32 + 32) = unat idx + 64" using u1 by (simp add: unat_word_ariths)
    have c2: "checked_add (idx + 32) 32 = Some (idx + 32 + 32)"
      using ov2 by (simp add: checked_add_def)
    show ?thesis
    proof (cases "unat idx + 96 \<le> length ct")
      case False
      then show ?thesis
        unfolding decodeTriple_def using a b c1 c2 u1 u2
        by (simp add: decodeAt_bytes_slice [OF sl])
    next
      case c: True
      then have ov3: "unat (idx + 32 + 32) + 32 < 2 ^ 256" using len u2 by simp
      have c3: "checked_add (idx + 32 + 32) 32 = Some (idx + 32 + 32 + 32)"
        using ov3 by (simp add: checked_add_def)
      have e: "idx + 32 + 32 + 32 = idx + 96" by simp
      show ?thesis
        unfolding decodeTriple_def using a b c c1 c2 c3 u1 u2 e
        by (simp add: decodeAt_bytes_slice [OF sl] add.commute)
    qed
  qed
qed


lemma decodeLoop_bytes_slice:
  "slice ext = bytes_slice \<Longrightarrow> length ct < 2 ^ 256 \<Longrightarrow> unat i \<le> unat n \<Longrightarrow>
     unat idx \<le> length ct \<Longrightarrow>
     (unat idx + 96 * (unat n - unat i) \<le> length ct
        \<longrightarrow> (\<exists>res. decodeLoop ext ct i n idx as xs ys = Inr res)) \<and>
     (length ct < unat idx + 96 * (unat n - unat i)
        \<longrightarrow> decodeLoop ext ct i n idx as xs ys = Inl SliceReverted)"
proof (induction ext ct i n idx as xs ys rule: decodeLoop.induct)
  case (1 ext ct i n idx as xs ys)
  note tr = decodeTriple_bytes_slice [OF "1.prems"(1,2), of idx]
  show ?case
  proof (cases "i < n")
    case False
    then have "unat i = unat n" using "1.prems"(3) by (simp add: word_less_nat_alt)
    moreover have "decodeLoop ext ct i n idx as xs ys = Inr (as, xs, ys)"
      using False by (subst decodeLoop.simps) simp
    ultimately show ?thesis using "1.prems"(4) by simp
  next
    case True
    then have lt: "unat i < unat n" by (simp add: word_less_nat_alt)
    have "unat n < 2 ^ 256" using unsigned_less [of n] by simp
    then have step: "unat (i + 1) = Suc (unat i)"
      using lt by (simp add: unat_word_ariths)
    have split: "96 * (unat n - unat i) = 96 + 96 * (unat n - unat (i + 1))"
      using lt step by simp
    show ?thesis
    proof (cases "unat idx + 96 \<le> length ct")
      case False
      then have "decodeLoop ext ct i n idx as xs ys = Inl SliceReverted"
        using True tr by (subst decodeLoop.simps) simp
      then show ?thesis using False split by simp
    next
      case fits: True
      let ?a = "be_word (take 32 (drop (unat idx) ct))"
      let ?x = "be_word (take 32 (drop (unat idx + 32) ct))"
      let ?y = "be_word (take 32 (drop (unat idx + 64) ct))"
      have tr': "decodeTriple ext ct idx = Inr ((?a, ?x, ?y), idx + 96)"
        using tr fits by simp
      have "unat idx + 96 < 2 ^ 256" using fits "1.prems"(2) by simp
      then have u: "unat (idx + 96) = unat idx + 96" by (simp add: unat_word_ariths)
      have unfold: "decodeLoop ext ct i n idx as xs ys =
          decodeLoop ext ct (i + 1) n (idx + 96) (as @ [?a]) (xs @ [?x]) (ys @ [?y])"
        using True tr' by (subst decodeLoop.simps) simp
      have le': "unat (i + 1) \<le> unat n" using lt step by simp
      have in': "unat (idx + 96) \<le> length ct" using fits u by simp
      from "1.IH" [OF True tr' refl refl refl "1.prems"(1,2) le' in']
      show ?thesis
        unfolding unfold split u by (simp add: add.assoc)
    qed
  qed
qed

lemma myCallback_by_length:
  assumes np: "\<not> processed (decryptionContexts s r)"
    and nz: "lemmingCountInBatch s (batchId (decryptionContexts s r)) \<noteq> 0"
    and fit: "unat (lemmingCountInBatch s (batchId (decryptionContexts s r))) * 3 < 2 ^ 256"
    and col: "collectCts s (batchId (decryptionContexts s r)) 1
                (lemmingCountInBatch s (batchId (decryptionContexts s r))) [] = Some cts"
    and hash: "hashCiphertexts ext cts = stateHash (decryptionContexts s r)"
    and sig: "checkSignatures ext r ct pf"
    and sl: "slice ext = bytes_slice"
    and len: "length ct < 2 ^ 256"
  shows "(length ct < 96 * unat (lemmingCountInBatch s (batchId (decryptionContexts s r)))
            \<longrightarrow> myCallback ext e r ct pf s = Inl (SliceReverted, s)) \<and>
         (96 * unat (lemmingCountInBatch s (batchId (decryptionContexts s r))) \<le> length ct
            \<longrightarrow> (\<exists>abilities xs ys.
                  myCallback ext e r ct pf s =
                    Inr (s\<lparr>decryptionContexts := (decryptionContexts s)(r :=
                             (decryptionContexts s r)\<lparr>processed := True\<rparr>)\<rparr>,
                         [DecryptionCompleted r (batchId (decryptionContexts s r))
                            abilities xs ys])))"
proof -
  let ?n = "lemmingCountInBatch s (batchId (decryptionContexts s r))"
  have mul: "checked_mul ?n 3 = Some (?n * 3)"
    using fit by (simp add: checked_mul_def)
  note dl = decodeLoop_bytes_slice [OF sl len, of 0 ?n 0 "[]" "[]" "[]"]
  have short: "myCallback ext e r ct pf s = Inl (SliceReverted, s)"
    if "length ct < 96 * unat ?n"
  proof -
    from dl that have "decodeLoop ext ct 0 ?n 0 [] [] [] = Inl SliceReverted" by simp
    then show ?thesis
      unfolding myCallback_def using np nz mul col hash sig by (simp add: Let_def)
  qed
  have long: "\<exists>abilities xs ys.
      myCallback ext e r ct pf s =
        Inr (s\<lparr>decryptionContexts := (decryptionContexts s)(r :=
                 (decryptionContexts s r)\<lparr>processed := True\<rparr>)\<rparr>,
             [DecryptionCompleted r (batchId (decryptionContexts s r)) abilities xs ys])"
    if "96 * unat ?n \<le> length ct"
  proof -
    from dl that obtain abilities xs ys where
      "decodeLoop ext ct 0 ?n 0 [] [] [] = Inr (abilities, xs, ys)"
      by (metis add_0 diff_zero unat_0 le0 prod_cases3)
    then have "myCallback ext e r ct pf s =
        Inr (s\<lparr>decryptionContexts := (decryptionContexts s)(r :=
                 (decryptionContexts s r)\<lparr>processed := True\<rparr>)\<rparr>,
             [DecryptionCompleted r (batchId (decryptionContexts s r)) abilities xs ys])"
      unfolding myCallback_def using np nz mul col hash sig by (simp add: Let_def)
    then show ?thesis by blast
  qed
  from short long show ?thesis by blast
qed

text \<open>
  Claim C6 says that \<open>myCallback\<close> fails with \<open>MalformedCleartexts\<close> whenever the byte
  length of \<open>cleartexts\<close> is not exactly \<open>3 \<times> recordCount \<times> 32\<close>. The contract has no
  such error and never compares the length. For the one-record batch of the scenario the
  expected size is 96 bytes; a callback with 97 bytes completes and decodes \<open>(2, 5, 7)\<close>.
\<close>

theorem cleartexts_length_counterexample:
  "length (sample_cleartexts @ [0]) = 97 \<and>
   lemmingCountInBatch requested (batchId (decryptionContexts requested 7)) = 1 \<and>
   myCallback sample_externals (at_time bob 5) 7 (sample_cleartexts @ [0]) [1] requested
     = Inr (requested\<lparr>decryptionContexts := (decryptionContexts requested)(7 :=
              \<lparr>batchId = 1, stateHash = 3110736, processed = True\<rparr>)\<rparr>,
            [DecryptionCompleted 7 1 [2] [5] [7]])"
  unfolding requested_eq by (simp add: sample_cleartexts_def eval_defs)

text \<open>
  Claim C6, amended. A callback that completes has decoded exactly \<open>3 \<times> recordCount\<close>
  integers: the \<open>k\<close>-th triple \<open>(ability, x, y)\<close>, for the record with id \<open>k + 1\<close>, is read
  by \<open>abi.decode(cleartexts.slice(offset, 32))\<close> at the offsets \<open>96k\<close>, \<open>96k + 32\<close> and
  \<open>96k + 64\<close>. The byte length is not compared with the expected size. With a
  bounds-checked \<open>slice\<close>, a callback that passes the replay check, the commitment
  re-check and the proof verification reverts, in \<open>slice\<close>, when \<open>cleartexts\<close> is
  shorter than \<open>3 \<times> recordCount \<times> 32\<close> bytes, and completes, setting \<open>processed\<close>
  and emitting the result, whenever \<open>cleartexts\<close> is at least that long, so that
  trailing bytes are ignored (the length of a \<open>bytes\<close> value is itself a \<open>uint256\<close>,
  hence below \<open>2 ^ 256\<close>).
\<close>

theorem callback_decodes_triples:
  "(myCallback ext e r ct pf s = Inr (s', evs) \<longrightarrow>
      (\<exists>abilities xs ys.
         evs = [DecryptionCompleted r (batchId (decryptionContexts s r)) abilities xs ys] \<and>
         length abilities = unat (lemmingCountInBatch s (batchId (decryptionContexts s r))) \<and>
         length xs = unat (lemmingCountInBatch s (batchId (decryptionContexts s r))) \<and>
         length ys = unat (lemmingCountInBatch s (batchId (decryptionContexts s r))) \<and>
         (\<forall>k < unat (lemmingCountInBatch s (batchId (decryptionContexts s r))).
            decodeAt ext ct (of_nat (96 * k)) = Inr (abilities ! k) \<and>
            decodeAt ext ct (of_nat (96 * k + 32)) = Inr (xs ! k) \<and>
            decodeAt ext ct (of_nat (96 * k + 64)) = Inr (ys ! k)))) \<and>
   (slice ext = bytes_slice \<and> length ct < 2 ^ 256 \<and> length ct < 96 * unat n
      \<longrightarrow> decodeLoop ext ct 0 n 0 [] [] [] = Inl SliceReverted) \<and>
   (slice ext = bytes_slice \<and> length ct < 2 ^ 256 \<and> 96 * unat n \<le> length ct
      \<longrightarrow> (\<exists>res. decodeLoop ext ct 0 n 0 [] [] [] = Inr res)) \<and>
   (\<not> processed (decryptionContexts s r) \<and>
    lemmingCountInBatch s (batchId (decryptionContexts s r)) \<noteq> 0 \<and>
    unat (lemmingCountInBatch s (batchId (decryptionContexts s r))) * 3 < 2 ^ 256 \<and>
    collectCts s (batchId (decryptionContexts s r)) 1
      (lemmingCountInBatch s (batchId (decryptionContexts s r))) [] = Some cts \<and>
    hashCiphertexts ext cts = stateHash (decryptionContexts s r) \<and>
    checkSignatures ext r ct pf \<and> slice ext = bytes_slice \<and> length ct < 2 ^ 256
      \<longrightarrow> (length ct < 96 * unat (lemmingCountInBatch s (batchId (decryptionContexts s r)))
             \<longrightarrow> myCallback ext e r ct pf s = Inl (SliceReverted, s)) \<and>
          (96 * unat (lemmingCountInBatch s (batchId (decryptionContexts s r))) \<le> length ct
             \<longrightarrow> (\<exists>abilities xs ys.
                   myCallback ext e r ct pf s =
                     Inr (s\<lparr>decryptionContexts := (decryptionContexts s)(r :=
                              (decryptionContexts s r)\<lparr>processed := True\<rparr>)\<rparr>,
                          [DecryptionCompleted r (batchId (decryptionContexts s r))
                             abilities xs ys]))))"
proof (intro conjI)
  show "\<not> processed (decryptionContexts s r) \<and>
    lemmingCountInBatch s (batchId (decryptionContexts s r)) \<noteq> 0 \<and>
    unat (lemmingCountInBatch s (batchId (decryptionContexts s r))) * 3 < 2 ^ 256 \<and>
    collectCts s (batchId (decryptionContexts s r)) 1
      (lemmingCountInBatch s (batchId (decryptionContexts s r))) [] = Some cts \<and>
    hashCiphertexts ext cts = stateHash (decryptionContexts s r) \<and>
    checkSignatures ext r ct pf \<and> slice ext = bytes_slice \<and> length ct < 2 ^ 256
      \<longrightarrow> (length ct < 96 * unat (lemmingCountInBatch s (batchId (decryptionContexts s r)))
             \<longrightarrow> myCallback ext e r ct pf s = Inl (SliceReverted, s)) \<and>
          (96 * unat (lemmingCountInBatch s (batchId (decryptionContexts s r))) \<le> length ct
             \<longrightarrow> (\<exists>abilities xs ys.
                   myCallback ext e r ct pf s =
                     Inr (s\<lparr>decryptionContexts := (decryptionContexts s)(r :=
                              (decryptionContexts s r)\<lparr>processed := True\<rparr>)\<rparr>,
                          [DecryptionCompleted r (batchId (decryptionContexts s r))
                             abilities xs ys])))"
    using myCallback_by_length [of s r cts ext ct pf e] by blast
next
  show "myCallback ext e r ct pf s = Inr (s', evs) \<longrightarrow>
      (\<exists>abilities xs ys.
         evs = [DecryptionCompleted r (batchId (decryptionContexts s r)) abilities xs ys] \<and>
         length abilities = unat (lemmingCountInBatch s (batchId (decryptionContexts s r))) \<and>
         length xs = unat (lemmingCountInBatch s (batchId (decryptionContexts s r))) \<and>
         length ys = unat (lemmingCountInBatch s (batchId (decryptionContexts s r))) \<and>
         (\<forall>k < unat (lemmingCountInBatch s (batchId (decryptionContexts s r))).
            decodeAt ext ct (of_nat (96 * k)) = Inr (abilities ! k) \<and>
            decodeAt ext ct (of_nat (96 * k + 32)) = Inr (xs ! k) \<and>
            decodeAt ext ct (of_nat (96 * k + 64)) = Inr (ys ! k)))"
  proof
  assume ok: "myCallback ext e r ct pf s = Inr (s', evs)"
  assume ok: "myCallback ext e r ct pf s = Inr (s', evs)"
  let ?n = "lemmingCountInBatch s (batchId (decryptionContexts s r))"
  from myCallback_Inr [OF ok] obtain abilities xs ys where
    dl: "decodeLoop ext ct 0 ?n 0 [] [] [] = Inr (abilities, xs, ys)" and
    evs: "evs = [DecryptionCompleted r (batchId (decryptionContexts s r)) abilities xs ys]"
    by blast
  from decodeLoop_Inr [OF dl] obtain as2 xs2 ys2 where
    "(abilities, xs, ys) = ([] @ as2, [] @ xs2, [] @ ys2)"
    "length as2 = unat ?n - unat (0::uint256)" "length xs2 = unat ?n - unat (0::uint256)"
    "length ys2 = unat ?n - unat (0::uint256)"
    "\<forall>k < unat ?n - unat (0::uint256).
        decodeAt ext ct (0 + of_nat (96 * k)) = Inr (as2 ! k) \<and>
        decodeAt ext ct (0 + of_nat (96 * k + 32)) = Inr (xs2 ! k) \<and>
        decodeAt ext ct (0 + of_nat (96 * k + 64)) = Inr (ys2 ! k)"
    by auto
  then show "\<exists>abilities xs ys.
         evs = [DecryptionCompleted r (batchId (decryptionContexts s r)) abilities xs ys] \<and>
         length abilities = unat ?n \<and> length xs = unat ?n \<and> length ys = unat ?n \<and>
         (\<forall>k < unat ?n.
            decodeAt ext ct (of_nat (96 * k)) = Inr (abilities ! k) \<and>
            decodeAt ext ct (of_nat (96 * k + 32)) = Inr (xs ! k) \<and>
            decodeAt ext ct (of_nat (96 * k + 64)) = Inr (ys ! k))"
    using evs by simp
  qed
next
  show "slice ext = bytes_slice \<and> length ct < 2 ^ 256 \<and> length ct < 96 * unat n
      \<longrightarrow> decodeLoop ext ct 0 n 0 [] [] [] = Inl SliceReverted"
    using decodeLoop_bytes_slice [of ext ct 0 n 0 "[]" "[]" "[]"] by simp
next
  show "slice ext = bytes_slice \<and> length ct < 2 ^ 256 \<and> 96 * unat n \<le> length ct
      \<longrightarrow> (\<exists>res. decodeLoop ext ct 0 n 0 [] [] [] = Inr res)"
    using decodeLoop_bytes_slice [of ext ct 0 n 0 "[]" "[]" "[]"] by simp
qed

theorem callback_decodes_triples_witness:
  "myCallback sample_externals (at_time bob 5) 7 sample_cleartexts [1] requested
     = Inr (finalized, [DecryptionCompleted 7 1 [2] [5] [7]]) \<and>
   unat (lemmingCountInBatch requested (batchId (decryptionContexts requested 7))) = 1 \<and>
   decodeAt sample_externals sample_cleartexts (of_nat (96 * 0)) = Inr 2 \<and>
   decodeAt sample_externals sample_cleartexts (of_nat (96 * 0 + 32)) = Inr 5 \<and>
   decodeAt sample_externals sample_cleartexts (of_nat (96 * 0 + 64)) = Inr 7 \<and>
   slice sample_externals = bytes_slice \<and>
   length (word32 2 @ word32 5) < 96 * unat (1 :: uint256) \<and>
   decodeLoop sample_externals (word32 2 @ word32 5) 0 1 0 [] [] [] = Inl SliceReverted \<and>
   96 * unat (1 :: uint256) \<le> length (sample_cleartexts @ [0]) \<and>
   (\<exists>res. decodeLoop sample_externals (sample_cleartexts @ [0]) 0 1 0 [] [] [] = Inr res) \<and>
   \<not> processed (decryptionContexts requested 7) \<and>
   collectCts requested (batchId (decryptionContexts requested 7)) 1
     (lemmingCountInBatch requested (batchId (decryptionContexts requested 7))) []
     = Some [161, 178, 195] \<and>
   hashCiphertexts sample_externals [161, 178, 195] = stateHash (decryptionContexts requested 7) \<and>
   checkSignatures sample_externals 7 (word32 2 @ word32 5) [1] \<and>
   checkSignatures sample_externals 7 (sample_cleartexts @ [0]) [1] \<and>
   myCallback sample_externals (at_time bob 5) 7 (word32 2 @ word32 5) [1] requested
     = Inl (SliceReverted, requested) \<and>
   (\<exists>abilities xs ys.
      myCallback sample_externals (at_time bob 5) 7 (sample_cleartexts @ [0]) [1] requested
        = Inr (requested\<lparr>decryptionContexts := (decryptionContexts requested)(7 :=
                 (decryptionContexts requested 7)\<lparr>processed := True\<rparr>)\<rparr>,
               [DecryptionCompleted 7 (batchId (decryptionContexts requested 7)) abilities xs ys]))"
proof -
  have pre: "\<not> processed (decryptionContexts requested 7) \<and>
      lemmingCountInBatch requested (batchId (decryptionContexts requested 7)) \<noteq> 0 \<and>
      unat (lemmingCountInBatch requested (batchId (decryptionContexts requested 7))) * 3 < 2 ^ 256 \<and>
      collectCts requested (batchId (decryptionContexts requested 7)) 1
        (lemmingCountInBatch requested (batchId (decryptionContexts requested 7))) []
        = Some [161, 178, 195] \<and>
      hashCiphertexts sample_externals [161, 178, 195] = stateHash (decryptionContexts requested 7)"
    unfolding requested_eq by (simp add: eval_defs)
  have sigs: "checkSignatures sample_externals 7 (word32 2 @ word32 5) [1] \<and>
      checkSignatures sample_externals 7 (sample_cleartexts @ [0]) [1]"
    by (simp add: sample_externals_def)
  have n96: "length (word32 2 @ word32 5)
        < 96 * unat (lemmingCountInBatch requested (batchId (decryptionContexts requested 7))) \<and>
      96 * unat (lemmingCountInBatch requested (batchId (decryptionContexts requested 7)))
        \<le> length (sample_cleartexts @ [0])"
    unfolding requested_eq by (simp add: sample_cleartexts_def word32_def)
  have n: "unat (lemmingCountInBatch requested (batchId (decryptionContexts requested 7))) = 1"
    unfolding requested_eq by simp
  have sl: "slice sample_externals = bytes_slice"
    by (simp add: sample_externals_def)
  have short: "length (word32 2 @ word32 5) < 2 ^ 256 \<and>
      length (word32 2 @ word32 5) < 96 * unat (1 :: uint256)"
    by (simp add: word32_def)
  have long: "length (sample_cleartexts @ [0]) < 2 ^ 256 \<and>
      96 * unat (1 :: uint256) \<le> length (sample_cleartexts @ [0])"
    by (simp add: sample_cleartexts_def word32_def)
  note g = callback_decodes_triples [where ext = sample_externals and e = "at_time bob 5"
      and r = 7 and ct = sample_cleartexts and pf = "[1]" and s = requested and s' = finalized
      and evs = "[DecryptionCompleted 7 1 [2] [5] [7]]"]
  from g sample_callback obtain abilities xs ys where
    ev: "[DecryptionCompleted 7 1 [2] [5] [7]]
       = [DecryptionCompleted 7 (batchId (decryptionContexts requested 7)) abilities xs ys]" and
    rd: "\<forall>k < unat (lemmingCountInBatch requested (batchId (decryptionContexts requested 7))).
        decodeAt sample_externals sample_cleartexts (of_nat (96 * k)) = Inr (abilities ! k) \<and>
        decodeAt sample_externals sample_cleartexts (of_nat (96 * k + 32)) = Inr (xs ! k) \<and>
        decodeAt sample_externals sample_cleartexts (of_nat (96 * k + 64)) = Inr (ys ! k)"
    by blast
  from ev have vals: "abilities = [2]" "xs = [5]" "ys = [7]" by simp_all
  from rd n have r0: "decodeAt sample_externals sample_cleartexts (of_nat (96 * 0)) = Inr (abilities ! 0) \<and>
        decodeAt sample_externals sample_cleartexts (of_nat (96 * 0 + 32)) = Inr (xs ! 0) \<and>
        decodeAt sample_externals sample_cleartexts (of_nat (96 * 0 + 64)) = Inr (ys ! 0)"
    by (metis zero_less_one)
  have a: "decodeLoop sample_externals (word32 2 @ word32 5) 0 1 0 [] [] [] = Inl SliceReverted"
    using callback_decodes_triples [where ext = sample_externals and ct = "word32 2 @ word32 5"
      and n = 1] sl short by blast
  have b: "\<exists>res. decodeLoop sample_externals (sample_cleartexts @ [0]) 0 1 0 [] [] [] = Inr res"
    using callback_decodes_triples [where ext = sample_externals and ct = "sample_cleartexts @ [0]"
      and n = 1] sl long by blast
  have c: "myCallback sample_externals (at_time bob 5) 7 (word32 2 @ word32 5) [1] requested
      = Inl (SliceReverted, requested)"
    using callback_decodes_triples [where ext = sample_externals and e = "at_time bob 5"
      and r = 7 and ct = "word32 2 @ word32 5" and pf = "[1]" and s = requested
      and cts = "[161, 178, 195]"] pre sigs sl short n96 by blast
  have d: "\<exists>abilities xs ys.
      myCallback sample_externals (at_time bob 5) 7 (sample_cleartexts @ [0]) [1] requested
        = Inr (requested\<lparr>decryptionContexts := (decryptionContexts requested)(7 :=
                 (decryptionContexts requested 7)\<lparr>processed := True\<rparr>)\<rparr>,
               [DecryptionCompleted 7 (batchId (decryptionContexts requested 7)) abilities xs ys])"
    using callback_decodes_triples [where ext = sample_externals and e = "at_time bob 5"
      and r = 7 and ct = "sample_cleartexts @ [0]" and pf = "[1]" and s = requested
      and cts = "[161, 178, 195]"] pre sigs sl long n96 by blast
  have first: "myCallback sample_externals (at_time bob 5) 7 sample_cleartexts [1] requested
       = Inr (finalized, [DecryptionCompleted 7 1 [2] [5] [7]]) \<and>
     unat (lemmingCountInBatch requested (batchId (decryptionContexts requested 7))) = 1 \<and>
     decodeAt sample_externals sample_cleartexts (of_nat (96 * 0)) = Inr 2 \<and>
     decodeAt sample_externals sample_cleartexts (of_nat (96 * 0 + 32)) = Inr 5 \<and>
     decodeAt sample_externals sample_cleartexts (of_nat (96 * 0 + 64)) = Inr 7"
    using sample_callback n r0 vals by simp
  from first sl short long a b pre sigs c d show ?thesis by blast
qed

section \<open>State drift between request and callback\<close>

lemma collectCts_snoc:
  assumes n2: "unat n + 2 < 2 ^ 256"
    and upd: "lemmings s' b = (lemmings s b)(n + 1 := rec)"
    and old: "collectCts s b 1 n [] = Some cts"
  shows "collectCts s' b 1 (n + 1) [] =
           Some (cts @ [toBytes32 (ability rec), toBytes32 (xCoord rec), toBytes32 (yCoord rec)])"
proof -
  let ?t = "\<lambda>s k. [toBytes32 (ability (lemmings s b (of_nat k))),
                     toBytes32 (xCoord (lemmings s b (of_nat k))),
                     toBytes32 (yCoord (lemmings s b (of_nat k)))]"
  have un: "unat (n + 1) = Suc (unat n)"
    using n2 by (simp add: unat_word_ariths)
  have one: "unat (1 :: uint256) = 1" by simp
  have cts: "cts = concat (map (?t s) [1 ..< Suc (unat n)])"
    using collectCts_eq [of n 1 s b "[]"] old n2 by simp
  have new: "collectCts s' b 1 (n + 1) [] = Some (concat (map (?t s') [1 ..< Suc (Suc (unat n))]))"
    using collectCts_eq [of "n + 1" 1 s' b "[]"] n2 un by simp
  have same: "?t s' k = ?t s k" if "k \<in> set [1 ..< Suc (unat n)]" for k
  proof -
    from that have k: "k \<le> unat n" by auto
    then have "k < 2 ^ 256" using n2 by simp
    then have "unat (of_nat k :: uint256) = k" by (intro of_nat_inverse [OF refl]) simp
    then have "(of_nat k :: uint256) \<noteq> n + 1" using un k by auto
    then show ?thesis by (simp add: upd)
  qed
  have last: "?t s' (Suc (unat n)) = [toBytes32 (ability rec), toBytes32 (xCoord rec), toBytes32 (yCoord rec)]"
  proof -
    have "(of_nat (Suc (unat n)) :: uint256) = n + 1" by simp
    then show ?thesis by (simp add: upd)
  qed
  have "concat (map (?t s') [1 ..< Suc (Suc (unat n))])
      = concat (map (?t s') [1 ..< Suc (unat n)]) @ ?t s' (Suc (unat n))"
    by simp
  also have "map (?t s') [1 ..< Suc (unat n)] = map (?t s) [1 ..< Suc (unat n)]"
    using same by (intro map_cong refl) blast
  finally show ?thesis using new cts last by simp
qed


text \<open>
  Claim C2. A decryption request for batch \<open>b\<close> completes, and then one more record is
  submitted to the same, still open, batch. The callback for that request then fails
  with \<open>StateMismatch\<close> and changes nothing: the ciphertext sequence it re-reads is the
  committed sequence followed by the three handles of the new record. Two assumptions
  are made explicit: the hash does not collide on these two sequences, and the batch
  is small enough for three times the new record count to fit in a \<open>uint256\<close>.
\<close>

theorem state_drift_rejected:
  assumes req: "requestBatchDecryption ext e1 b s0 = Inr (s1, evs1)"
    and sub: "submitLemming e2 b a vx vy s1 = Inr (s2, evs2)"
    and cts: "collectCts s0 b 1 (lemmingCountInBatch s0 b) [] = Some cts"
    and nocoll: "hashCiphertexts ext (cts @ [toBytes32 a, toBytes32 vx, toBytes32 vy])
                   \<noteq> hashCiphertexts ext cts"
    and fits: "3 * (unat (lemmingCountInBatch s0 b) + 1) < 2 ^ 256"
  shows "lemmingCountInBatch s2 b = lemmingCountInBatch s0 b + 1 \<and>
         decryptionContexts s2 (oracle_requestId e1)
           = \<lparr>batchId = b, stateHash = hashCiphertexts ext cts, processed = False\<rparr> \<and>
         collectCts s2 b 1 (lemmingCountInBatch s2 b) []
           = Some (cts @ [toBytes32 a, toBytes32 vx, toBytes32 vy]) \<and>
         myCallback ext e3 (oracle_requestId e1) ct pf s2 = Inl (StateMismatch, s2) \<and>
         transact ext (e3, MyCallback (oracle_requestId e1) ct pf) s2 = (s2, [])"
proof -
  let ?n = "lemmingCountInBatch s0 b"
  let ?r = "oracle_requestId e1"
  from requestBatchDecryption_Inr [OF req] cts have
    s1: "s1 = s0\<lparr>decryptionContexts := (decryptionContexts s0)(?r :=
                  \<lparr>batchId = b, stateHash = hashCiphertexts ext cts, processed = False\<rparr>),
                lastDecryptionRequestTime :=
                  (lastDecryptionRequestTime s0)(msg_sender e1 := block_timestamp e1)\<rparr>"
    by auto
  have n1: "lemmingCountInBatch s1 b = ?n" and l1: "lemmings s1 = lemmings s0"
    by (simp_all add: s1)
  from submitLemming_Inr [OF sub] have
    s2: "s2 = s1\<lparr>lemmingCountInBatch := (lemmingCountInBatch s1)(b := lemmingCountInBatch s1 b + 1),
             lemmings := (lemmings s1)(b := (lemmings s1 b)(lemmingCountInBatch s1 b + 1 :=
                \<lparr>ability = a, xCoord = vx, yCoord = vy\<rparr>)),
             lastSubmissionTime := (lastSubmissionTime s1)(msg_sender e2 := block_timestamp e2)\<rparr>"
    by simp
  have cnt: "lemmingCountInBatch s2 b = ?n + 1"
    by (simp add: s2 n1)
  have ctx: "decryptionContexts s2 ?r
      = \<lparr>batchId = b, stateHash = hashCiphertexts ext cts, processed = False\<rparr>"
    by (simp add: s2 s1)
  have upd: "lemmings s2 b = (lemmings s0 b)(?n + 1 := \<lparr>ability = a, xCoord = vx, yCoord = vy\<rparr>)"
    by (simp add: s2 n1 l1)
  have n2: "unat ?n + 2 < 2 ^ 256" using fits by simp
  have un: "unat (?n + 1) = Suc (unat ?n)"
    using n2 by (simp add: unat_word_ariths)
  have col: "collectCts s2 b 1 (?n + 1) [] = Some (cts @ [toBytes32 a, toBytes32 vx, toBytes32 vy])"
    using collectCts_snoc [OF n2 upd cts] by simp
  have nz: "?n + 1 \<noteq> 0"
    using un by (metis Zero_not_Suc unat_0)
  have mul: "checked_mul (?n + 1) 3 = Some ((?n + 1) * 3)"
    using fits un by (simp add: checked_mul_def)
  have cb: "myCallback ext e3 ?r ct pf s2 = Inl (StateMismatch, s2)"
    unfolding myCallback_def using ctx cnt nz mul col nocoll by (simp add: Let_def)
  then have "transact ext (e3, MyCallback ?r ct pf) s2 = (s2, [])"
    by (simp add: transact_def)
  with cnt ctx col cb show ?thesis by simp
qed

theorem state_drift_rejected_witness:
  "requestBatchDecryption sample_externals (at_time alice 4) 1 submitted
     = Inr (requested, [DecryptionRequested 7 1 3110736]) \<and>
   submitLemming (at_time bob 5) 1 162 179 196 requested
     = Inr (drifted, [LemmingSubmitted 11 1 2]) \<and>
   collectCts submitted 1 1 (lemmingCountInBatch submitted 1) [] = Some [161, 178, 195] \<and>
   hashCiphertexts sample_externals ([161, 178, 195] @ [toBytes32 162, toBytes32 179, toBytes32 196])
     \<noteq> hashCiphertexts sample_externals [161, 178, 195] \<and>
   3 * (unat (lemmingCountInBatch submitted 1) + 1) < 2 ^ 256 \<and>
   lemmingCountInBatch drifted 1 = lemmingCountInBatch submitted 1 + 1 \<and>
   myCallback sample_externals (at_time bob 6) (oracle_requestId (at_time alice 4))
     sample_cleartexts [1] drifted = Inl (StateMismatch, drifted) \<and>
   transact sample_externals
     (at_time bob 6, MyCallback (oracle_requestId (at_time alice 4)) sample_cleartexts [1]) drifted
     = (drifted, [])"
proof -
  have req: "requestBatchDecryption sample_externals (at_time alice 4) 1 submitted
      = Inr (requested, [DecryptionRequested 7 1 3110736])"
    unfolding requested_eq unfolding submitted_eq by (simp add: eval_defs)
  have sub: "submitLemming (at_time bob 5) 1 162 179 196 requested
      = Inr (drifted, [LemmingSubmitted 11 1 2])"
    unfolding drifted_eq unfolding requested_eq by (simp add: eval_defs)
  have cts: "collectCts submitted 1 1 (lemmingCountInBatch submitted 1) [] = Some [161, 178, 195]"
    unfolding submitted_eq by (simp add: eval_defs)
  have nocoll: "hashCiphertexts sample_externals
        ([161, 178, 195] @ [toBytes32 162, toBytes32 179, toBytes32 196])
      \<noteq> hashCiphertexts sample_externals [161, 178, 195]"
    by (simp add: eval_defs)
  have fits: "3 * (unat (lemmingCountInBatch submitted 1) + 1) < 2 ^ 256"
    unfolding submitted_eq by simp
  from state_drift_rejected [OF req sub cts nocoll fits, of "at_time bob 6" sample_cleartexts "[1]"]
    req sub cts nocoll fits
  show ?thesis by blast
qed

section \<open>Transactions and runs\<close>

lemma requested_ids_simps [simp]:
  "requested_ids [] = []"
  "requested_ids (ev # evs) = (case request_of ev of None \<Rightarrow> [] | Some r \<Rightarrow> [r]) @ requested_ids evs"
  "requested_ids (evs @ evs') = requested_ids evs @ requested_ids evs'"
  by (simp_all add: requested_ids_def List.map_filter_def split: option.splits)

lemma completed_ids_simps [simp]:
  "completed_ids [] = []"
  "completed_ids (ev # evs) = (case completion_of ev of None \<Rightarrow> [] | Some r \<Rightarrow> [r]) @ completed_ids evs"
  "completed_ids (evs @ evs') = completed_ids evs @ completed_ids evs'"
  by (simp_all add: completed_ids_def List.map_filter_def split: option.splits)

lemma submitted_ids_simps [simp]:
  "submitted_ids b [] = []"
  "submitted_ids b (ev # evs) = (case submission_of b ev of None \<Rightarrow> [] | Some r \<Rightarrow> [r]) @ submitted_ids b evs"
  "submitted_ids b (evs @ evs') = submitted_ids b evs @ submitted_ids b evs'"
  by (simp_all add: submitted_ids_def List.map_filter_def split: option.splits)

lemma transact_cases:
  "transact ext (e, c) s = (s', evs) \<Longrightarrow>
     (s' = s \<and> evs = []) \<or> execute ext e c s = Inr (s', evs)"
  by (auto simp: transact_def split: sum.splits)

section \<open>Replay protection\<close>

lemma step_processed:
  assumes "execute ext e c s = Inr (s', evs)" "processed (decryptionContexts s r)"
    "r \<notin> set (requested_ids evs)"
  shows "processed (decryptionContexts s' r) \<and> r \<notin> set (completed_ids evs)"
  using assms
  by (cases c)
     (auto dest!: transferOwnership_Inr addProvider_Inr removeProvider_Inr setPaused_Inr
        setCooldownSeconds_Inr openBatch_Inr closeBatch_Inr submitLemming_Inr
        requestBatchDecryption_Inr myCallback_Inr split: if_splits)


lemma transact_processed:
  assumes "processed (decryptionContexts s r)"
    "r \<notin> set (requested_ids (snd (transact ext t s)))"
  shows "processed (decryptionContexts (fst (transact ext t s)) r) \<and>
         r \<notin> set (completed_ids (snd (transact ext t s)))"
proof -
  obtain e c where t: "t = (e, c)" by (cases t)
  obtain s' evs where r: "transact ext (e, c) s = (s', evs)" by (cases "transact ext (e, c) s")
  from transact_cases [OF r] show ?thesis
  proof
    assume "s' = s \<and> evs = []"
    then show ?thesis using assms(1) r t by simp
  next
    assume "execute ext e c s = Inr (s', evs)"
    from step_processed [OF this assms(1)] assms(2) show ?thesis by (simp add: t r)
  qed
qed

lemma run_processed:
  "processed (decryptionContexts s r) \<Longrightarrow> r \<notin> set (requested_ids (snd (run ext ts s))) \<Longrightarrow>
   processed (decryptionContexts (fst (run ext ts s)) r) \<and>
   r \<notin> set (completed_ids (snd (run ext ts s)))"
proof (induction ts arbitrary: s)
  case Nil
  then show ?case by simp
next
  case (Cons t ts)
  from Cons.prems(2) have a: "r \<notin> set (requested_ids (snd (transact ext t s)))"
    and b: "r \<notin> set (requested_ids (snd (run ext ts (fst (transact ext t s)))))"
    by (simp_all add: Let_def)
  from transact_processed [OF Cons.prems(1) a]
  have p: "processed (decryptionContexts (fst (transact ext t s)) r)"
    and q: "r \<notin> set (completed_ids (snd (transact ext t s)))" by simp_all
  from Cons.IH [OF p b] q show ?case by (simp add: Let_def)
qed

lemma replay_guard:
  "processed (decryptionContexts s r) \<Longrightarrow> myCallback ext e r ct pf s = Inl (ReplayAttempt, s)"
  by (simp add: myCallback_def)

text \<open>
  Claim C1. For every request id \<open>r\<close>, \<open>processed[r]\<close> goes from false to true at most
  once. A callback for \<open>r\<close> that completes found \<open>processed\<close> false, found the recomputed
  commitment equal to the stored one and had its proof accepted, and it leaves
  \<open>processed\<close> true. After any further transactions, as long as the oracle files no new
  request under the same id \<open>r\<close>, \<open>processed[r]\<close> is still true, no callback for \<open>r\<close> has
  completed again, and every callback for \<open>r\<close>, whatever its cleartexts and proof,
  fails with \<open>ReplayAttempt\<close> and changes nothing.
\<close>

theorem finalized_at_most_once:
  assumes fin: "myCallback ext e r ct pf s = Inr (s1, evs)"
    and fresh: "r \<notin> set (requested_ids (snd (run ext ts s1)))"
  shows "\<not> processed (decryptionContexts s r) \<and>
         (\<exists>cts. collectCts s (batchId (decryptionContexts s r)) 1
                   (lemmingCountInBatch s (batchId (decryptionContexts s r))) [] = Some cts \<and>
                 hashCiphertexts ext cts = stateHash (decryptionContexts s r)) \<and>
         checkSignatures ext r ct pf \<and>
         processed (decryptionContexts s1 r) \<and>
         processed (decryptionContexts (fst (run ext ts s1)) r) \<and>
         r \<notin> set (completed_ids (snd (run ext ts s1))) \<and>
         myCallback ext e' r ct' pf' (fst (run ext ts s1))
           = Inl (ReplayAttempt, fst (run ext ts s1)) \<and>
         transact ext (e', MyCallback r ct' pf') (fst (run ext ts s1))
           = (fst (run ext ts s1), [])"
proof -
  note f = myCallback_Inr [OF fin]
  from f have p1: "processed (decryptionContexts s1 r)" by auto
  from run_processed [OF p1 fresh]
  have p2: "processed (decryptionContexts (fst (run ext ts s1)) r)"
    and nc: "r \<notin> set (completed_ids (snd (run ext ts s1)))" by simp_all
  note rp = replay_guard [OF p2, of ext e' ct' pf']
  then have tx: "transact ext (e', MyCallback r ct' pf') (fst (run ext ts s1))
      = (fst (run ext ts s1), [])"
    by (simp add: transact_def)
  from f p1 p2 nc rp tx show ?thesis by blast
qed

theorem finalized_at_most_once_witness:
  "myCallback sample_externals (at_time bob 5) 7 sample_cleartexts [1] requested
     = Inr (finalized, [DecryptionCompleted 7 1 [2] [5] [7]]) \<and>
   7 \<notin> set (requested_ids (snd (run sample_externals later finalized))) \<and>
   \<not> processed (decryptionContexts requested 7) \<and>
   checkSignatures sample_externals 7 sample_cleartexts [1] \<and>
   processed (decryptionContexts finalized 7) \<and>
   processed (decryptionContexts (fst (run sample_externals later finalized)) 7) \<and>
   7 \<notin> set (completed_ids (snd (run sample_externals later finalized))) \<and>
   myCallback sample_externals (at_time bob 9) 7 sample_cleartexts [1]
       (fst (run sample_externals later finalized))
     = Inl (ReplayAttempt, fst (run sample_externals later finalized)) \<and>
   transact sample_externals (at_time bob 9, MyCallback 7 sample_cleartexts [1])
       (fst (run sample_externals later finalized))
     = (fst (run sample_externals later finalized), [])"
proof -
  have fresh: "7 \<notin> set (requested_ids (snd (run sample_externals later finalized)))"
    by (simp add: later_log)
  from finalized_at_most_once [OF sample_callback fresh,
      where e' = "at_time bob 9" and ct' = sample_cleartexts and pf' = "[1]"]
    sample_callback fresh
  show ?thesis by blast
qed

section \<open>Batch 0\<close>

lemma succ_nonzero: "unat (a :: uint256) + 1 < 2 ^ 256 \<Longrightarrow> a + 1 \<noteq> 0"
  using unat_succ_word [of a] by (metis Suc_eq_plus1 Zero_not_Suc unat_0)

lemma step_batch_zero:
  assumes "execute ext e c s = Inr (s', evs)" "\<not> isBatchOpen s 0" "lemmingCountInBatch s 0 = 0"
  shows "\<not> isBatchOpen s' 0 \<and> lemmingCountInBatch s' 0 = 0"
  using assms
  by (cases c)
     (auto dest!: transferOwnership_Inr addProvider_Inr removeProvider_Inr setPaused_Inr
        setCooldownSeconds_Inr openBatch_Inr closeBatch_Inr submitLemming_Inr
        requestBatchDecryption_Inr myCallback_Inr dest: succ_nonzero split: if_splits)

lemma step_unrecorded:
  assumes "execute ext e c s = Inr (s', evs)" "lemmingCountInBatch s 0 = 0"
    "decryptionContexts s r = \<lparr>batchId = 0, stateHash = 0, processed = False\<rparr>"
    "r \<notin> set (requested_ids evs)"
  shows "decryptionContexts s' r = \<lparr>batchId = 0, stateHash = 0, processed = False\<rparr>"
  using assms
  by (cases c)
     (auto dest!: transferOwnership_Inr addProvider_Inr removeProvider_Inr setPaused_Inr
        setCooldownSeconds_Inr openBatch_Inr closeBatch_Inr submitLemming_Inr
        requestBatchDecryption_Inr myCallback_Inr split: if_splits)

lemma transact_batch_zero:
  assumes "\<not> isBatchOpen s 0" "lemmingCountInBatch s 0 = 0"
  shows "\<not> isBatchOpen (fst (transact ext t s)) 0 \<and>
         lemmingCountInBatch (fst (transact ext t s)) 0 = 0 \<and>
         (decryptionContexts s r = \<lparr>batchId = 0, stateHash = 0, processed = False\<rparr> \<and>
          r \<notin> set (requested_ids (snd (transact ext t s)))
          \<longrightarrow> decryptionContexts (fst (transact ext t s)) r
                = \<lparr>batchId = 0, stateHash = 0, processed = False\<rparr>)"
proof -
  obtain e c where t: "t = (e, c)" by (cases t)
  obtain s' evs where r: "transact ext (e, c) s = (s', evs)" by (cases "transact ext (e, c) s")
  from transact_cases [OF r] show ?thesis
  proof
    assume "s' = s \<and> evs = []"
    then show ?thesis using assms r t by simp
  next
    assume ex: "execute ext e c s = Inr (s', evs)"
    from step_batch_zero [OF ex assms] step_unrecorded [OF ex assms(2), of r]
    show ?thesis by (simp add: t r)
  qed
qed

lemma run_batch_zero:
  "\<not> isBatchOpen s 0 \<Longrightarrow> lemmingCountInBatch s 0 = 0 \<Longrightarrow>
   \<not> isBatchOpen (fst (run ext ts s)) 0 \<and>
   lemmingCountInBatch (fst (run ext ts s)) 0 = 0 \<and>
   (decryptionContexts s r = \<lparr>batchId = 0, stateHash = 0, processed = False\<rparr> \<and>
    r \<notin> set (requested_ids (snd (run ext ts s)))
    \<longrightarrow> decryptionContexts (fst (run ext ts s)) r
          = \<lparr>batchId = 0, stateHash = 0, processed = False\<rparr>)"
proof (induction ts arbitrary: s)
  case Nil
  then show ?case by simp
next
  case (Cons t ts)
  note st = transact_batch_zero [OF Cons.prems, of ext t r]
  from st have a: "\<not> isBatchOpen (fst (transact ext t s)) 0"
    and b: "lemmingCountInBatch (fst (transact ext t s)) 0 = 0" by simp_all
  from Cons.IH [OF a b] st show ?case by (simp add: Let_def)
qed

text \<open>
  Claim C10. In every state reached from the constructor by any transactions, batch 0
  is not open and holds no record: \<open>openBatch\<close> increments \<open>currentBatchId\<close> (checked, so
  it never wraps to 0) before it opens the batch, and only open batches receive records.
  Consequently a callback for a request id under which no request was ever recorded
  reads the default context (batch 0, not processed) and reverts with \<open>InvalidBatchId\<close>,
  whatever the hash and the proof verification are, and nothing changes.
\<close>

theorem batch_zero_never_used:
  "\<not> isBatchOpen (fst (run ext ts (fst (constructor e0)))) 0 \<and>
   lemmingCountInBatch (fst (run ext ts (fst (constructor e0)))) 0 = 0 \<and>
   (r \<notin> set (requested_ids (snd (run ext ts (fst (constructor e0)))))
    \<longrightarrow> decryptionContexts (fst (run ext ts (fst (constructor e0)))) r
            = \<lparr>batchId = 0, stateHash = 0, processed = False\<rparr> \<and>
        myCallback ext e r ct pf (fst (run ext ts (fst (constructor e0))))
            = Inl (InvalidBatchId, fst (run ext ts (fst (constructor e0)))) \<and>
        transact ext (e, MyCallback r ct pf) (fst (run ext ts (fst (constructor e0))))
            = (fst (run ext ts (fst (constructor e0))), []))"
proof -
  let ?s0 = "fst (constructor e0)"
  let ?sF = "fst (run ext ts ?s0)"
  have i: "\<not> isBatchOpen ?s0 0" "lemmingCountInBatch ?s0 0 = 0"
    "decryptionContexts ?s0 r = \<lparr>batchId = 0, stateHash = 0, processed = False\<rparr>"
    by (simp_all add: constructor_def)
  note rb = run_batch_zero [OF i(1,2), of ext ts r]
  have cb: "myCallback ext e r ct pf ?sF = Inl (InvalidBatchId, ?sF)"
    if "decryptionContexts ?sF r = \<lparr>batchId = 0, stateHash = 0, processed = False\<rparr>"
    using that rb by (simp add: myCallback_def)
  have tx: "transact ext (e, MyCallback r ct pf) ?sF = (?sF, [])"
    if "myCallback ext e r ct pf ?sF = Inl (InvalidBatchId, ?sF)"
    using that by (simp add: transact_def)
  from rb i(3) cb tx show ?thesis by blast
qed

theorem batch_zero_never_used_witness:
  "8 \<notin> set (requested_ids (snd (run sample_externals scenario (fst (constructor (at_time alice 0)))))) \<and>
   \<not> isBatchOpen (fst (run sample_externals scenario (fst (constructor (at_time alice 0))))) 0 \<and>
   lemmingCountInBatch (fst (run sample_externals scenario (fst (constructor (at_time alice 0))))) 0 = 0 \<and>
   decryptionContexts (fst (run sample_externals scenario (fst (constructor (at_time alice 0))))) 8
     = \<lparr>batchId = 0, stateHash = 0, processed = False\<rparr> \<and>
   myCallback sample_externals (at_time bob 5) 8 sample_cleartexts [1]
       (fst (run sample_externals scenario (fst (constructor (at_time alice 0)))))
     = Inl (InvalidBatchId, fst (run sample_externals scenario (fst (constructor (at_time alice 0))))) \<and>
   transact sample_externals (at_time bob 5, MyCallback 8 sample_cleartexts [1])
       (fst (run sample_externals scenario (fst (constructor (at_time alice 0)))))
     = (fst (run sample_externals scenario (fst (constructor (at_time alice 0)))), [])"
proof -
  have fresh: "8 \<notin> set (requested_ids (snd (run sample_externals scenario (fst (constructor (at_time alice 0))))))"
    using scenario_log by (simp add: deployed_def)
  from batch_zero_never_used [where ext = sample_externals and ts = scenario
      and ?e0.0 = "at_time alice 0" and r = 8 and e = "at_time bob 5" and ct = sample_cleartexts and pf = "[1]"]
    fresh
  show ?thesis by blast
qed

section \<open>Record ids and closed batches\<close>














end
